theory Spec2Isabelle
  imports Complex_Main "HOL-Library.Multiset" "HOL-Library.Word"
begin

section \<open>LAIK: 1-D vector layouts and the block partitioner\<close>

text \<open>
  A shallow embedding of the sparse 1-D vector layout
  (\<^verbatim>\<open>src/layout_sparse_vector.c\<close>), the compact (dense) 1-D vector
  layout (\<^verbatim>\<open>src/layout_compact_vector.c\<close>), with the packing and
  unpacking of both, and of the block partitioner (\<^verbatim>\<open>src/partitioner.c\<close>)
  of LAIK.

  Conventions. \<^verbatim>\<open>int64_t\<close> and \<^verbatim>\<open>int\<close> values are modelled as \<^typ>\<open>int\<close>,
  \<^verbatim>\<open>uint64_t\<close> and \<^verbatim>\<open>unsigned int\<close> values as \<^typ>\<open>nat\<close>; the properties
  below concern indices and lengths far from the 64-bit limits, so no
  wrap-around is written out, except for the one explicit cast
  \<^verbatim>\<open>(int64_t) l->count\<close>. \<^verbatim>\<open>double\<close> values are real numbers.
  A failed \<^verbatim>\<open>assert\<close>, a call of
  \<^verbatim>\<open>laik_panic\<close> (which never returns) and an access the C standard leaves
  undefined are values of the type \<open>error\<close>; a function that can fail
  returns \<open>error + 'a\<close>. A function that mutates the object behind a
  pointer returns the updated object.
\<close>

datatype error =
    AssertionFailed   \<comment> \<open>a failed \<^verbatim>\<open>assert(...)\<close>\<close>
  | Panic             \<comment> \<open>\<^verbatim>\<open>laik_panic(...)\<close>\<close>
  | Undefined         \<comment> \<open>behaviour the C standard leaves undefined\<close>
  | NotFinite         \<comment> \<open>a \<^verbatim>\<open>double\<close> division by zero, whose result is not a real number\<close>

subsection \<open>The sparse vector layout: data\<close>

text \<open>
  \<^verbatim>\<open>struct _Laik_Interval_Vector { int64_t from; int64_t to; }\<close>:
  the interval includes \<open>from\<close> and excludes \<open>to\<close>.
\<close>

record Laik_Interval_Vector =
  iv_from :: int
  iv_to :: int

text \<open>
  \<^verbatim>\<open>struct _Laik_Map_Vector\<close>. The C fields \<^verbatim>\<open>size\<close> and
  \<^verbatim>\<open>intervals\<close> (an array of \<^verbatim>\<open>size\<close> entries) are the list
  \<open>intervals\<close>, whose length is \<^verbatim>\<open>size\<close>.
\<close>

record Laik_Map_Vector =
  intervals :: "Laik_Interval_Vector list"
  lower_bound :: int
  upper_bound :: int

text \<open>
  The header \<^verbatim>\<open>Laik_Layout h\<close> shared by all layouts. It is declared in
  \<^verbatim>\<open>laik-internal.h\<close>, which is not among the sources, as are the other
  structures of LAIK below; each record has the fields that the functions
  modelled here read or write.
\<close>

record Laik_Layout =
  dims :: int
  map_count :: int
  count :: nat

text \<open>
  \<^verbatim>\<open>struct _Laik_Layout_Vector\<close> of the sparse layout. The pointer
  \<^verbatim>\<open>globalToLocalMap\<close> is \<open>None\<close> when it is null; the map behind it is
  never written after \<^verbatim>\<open>calculate_mapping\<close> has built it, so sharing the
  pointer between two layouts is copying the value.
\<close>

record Laik_Layout_Vector = Laik_Layout +
  lv_id :: int
  localLength :: int
  numberOfExternalValues :: nat
  currentExternalVallue :: nat
  globalToLocalMap :: "Laik_Map_Vector option"
  allocatedRangeCount :: nat

subsection \<open>The sparse vector layout: \<^verbatim>\<open>section_vector\<close> and \<^verbatim>\<open>offset_vector\<close>\<close>

text \<open>
  \<^verbatim>\<open>section_vector\<close>: 0 when the index lies between the bounds of the map
  (both compared inclusively), -1 otherwise. A null map pointer is
  dereferenced by the C code, which is undefined.
\<close>

definition section_vector :: "'a Laik_Layout_Vector_scheme \<Rightarrow> int \<Rightarrow> error + int" where
  "section_vector lv idx =
     (case globalToLocalMap lv of
        None \<Rightarrow> Inl Undefined
      | Some m \<Rightarrow>
          if idx \<le> upper_bound m \<and> idx \<ge> lower_bound m then Inr 0 else Inr (- 1))"

text \<open>
  The \<^verbatim>\<open>for\<close> loop of \<^verbatim>\<open>offset_vector\<close> over the intervals, started with
  \<^verbatim>\<open>localOffset\<close>; it returns the final \<^verbatim>\<open>localOffset\<close> and
  \<^verbatim>\<open>wasInLocalRange\<close>.
\<close>

fun offset_scan :: "Laik_Interval_Vector list \<Rightarrow> int \<Rightarrow> int \<Rightarrow> int \<times> bool" where
  "offset_scan [] idx_val localOffset = (localOffset, False)"
| "offset_scan (iv # ivs) idx_val localOffset =
     (if idx_val \<ge> iv_from iv \<and> idx_val < iv_to iv
      then (localOffset + (idx_val - iv_from iv), True)
      else if idx_val < iv_from iv
      then (localOffset, False)
      else offset_scan ivs idx_val (localOffset + (iv_to iv - iv_from iv)))"

text \<open>
  \<^verbatim>\<open>offset_vector(l, n, idx)\<close> of the sparse layout. It returns the offset
  and the layout with its advanced external cursor.
\<close>

definition offset_vector ::
  "'a Laik_Layout_Vector_scheme \<Rightarrow> int \<Rightarrow> int \<Rightarrow> error + (int \<times> 'a Laik_Layout_Vector_scheme)" where
  "offset_vector lv n idx_val =
     (if n \<noteq> 0 then Inl AssertionFailed
      else case globalToLocalMap lv of
        None \<Rightarrow> Inl AssertionFailed
      | Some m \<Rightarrow>
          (case offset_scan (intervals m) idx_val 0 of
             (localOffset, wasInLocalRange) \<Rightarrow>
               if wasInLocalRange
               then (if localOffset \<ge> 0 \<and> localOffset < localLength lv
                     then Inr (localOffset, lv)
                     else Inl AssertionFailed)
               else if numberOfExternalValues lv = 0
               then Inl Panic
               else
                 let cur = (if currentExternalVallue lv = numberOfExternalValues lv
                            then 0 else currentExternalVallue lv)
                 in Inr (localLength lv + int cur, lv\<lparr>currentExternalVallue := cur + 1\<rparr>)))"

text \<open>
  The slot the next external query gets: the cursor as \<^verbatim>\<open>offset_vector\<close>
  normalises it before use (\<^verbatim>\<open>if (cur == E) cur = 0\<close>).
\<close>

definition external_cursor :: "'a Laik_Layout_Vector_scheme \<Rightarrow> nat" where
  "external_cursor lv =
     (if currentExternalVallue lv = numberOfExternalValues lv then 0
      else currentExternalVallue lv)"

text \<open>A sequence of offset queries on one layout, each on the layout the previous one left.\<close>

fun offset_queries ::
  "'a Laik_Layout_Vector_scheme \<Rightarrow> int list \<Rightarrow> error + (int list \<times> 'a Laik_Layout_Vector_scheme)" where
  "offset_queries lv [] = Inr ([], lv)"
| "offset_queries lv (g # gs) =
     (case offset_vector lv 0 g of
        Inl e \<Rightarrow> Inl e
      | Inr (off, lv') \<Rightarrow>
          (case offset_queries lv' gs of
             Inl e \<Rightarrow> Inl e
           | Inr (offs, lv'') \<Rightarrow> Inr (off # offs, lv'')))"

subsection \<open>The sparse vector layout: \<^verbatim>\<open>reuse_vector\<close>\<close>

text \<open>The cast \<^verbatim>\<open>(int64_t) c\<close> of a \<^verbatim>\<open>uint64_t\<close> value.\<close>

definition cast_int64 :: "nat \<Rightarrow> int" where
  "cast_int64 c =
     (if c mod 2 ^ 64 < 2 ^ 63 then int (c mod 2 ^ 64) else int (c mod 2 ^ 64) - 2 ^ 64)"

text \<open>
  \<^verbatim>\<open>reuse_vector(l, n, old, nold)\<close> of the sparse layout: the result and
  the new layout \<open>l\<close> as the call leaves it. Logging is left out.
\<close>

definition reuse_vector ::
  "'a Laik_Layout_Vector_scheme \<Rightarrow> int \<Rightarrow> 'a Laik_Layout_Vector_scheme \<Rightarrow> int
     \<Rightarrow> error + (bool \<times> 'a Laik_Layout_Vector_scheme)" where
  "reuse_vector l n old nold =
     (if \<not> (n \<ge> 0 \<and> n < map_count l) then Inl AssertionFailed
      else
        let new_totalSize_fits = (allocatedRangeCount l \<le> allocatedRangeCount old);
            vector_size_changed = (localLength l \<noteq> localLength old)
        in
          if \<not> new_totalSize_fits \<or> vector_size_changed
          then Inr (False,
                 if \<not> vector_size_changed
                 then l\<lparr>globalToLocalMap := globalToLocalMap old\<rparr>
                 else l)
          else
            let l1 = (if cast_int64 (count l) \<noteq> localLength l
                      then l\<lparr>globalToLocalMap := globalToLocalMap old\<rparr>
                      else l)
            in Inr (True, l1\<lparr>allocatedRangeCount := allocatedRangeCount old\<rparr>))"

subsection \<open>Well-formed interval maps\<close>

text \<open>An index is owned when some interval of the map contains it.\<close>

definition owned :: "Laik_Interval_Vector list \<Rightarrow> int \<Rightarrow> bool" where
  "owned ivs g = (\<exists>iv \<in> set ivs. iv_from iv \<le> g \<and> g < iv_to iv)"

text \<open>
  The intervals of a map are sorted ascending and do not overlap: no interval
  ends before it starts, and each ends no later than every later one starts.
\<close>

definition sorted_intervals :: "Laik_Interval_Vector list \<Rightarrow> bool" where
  "sorted_intervals ivs =
     (list_all (\<lambda>iv. iv_from iv \<le> iv_to iv) ivs \<and>
      sorted_wrt (\<lambda>a b. iv_to a \<le> iv_from b) ivs)"

definition iv_size :: "Laik_Interval_Vector \<Rightarrow> int" where
  "iv_size iv = iv_to iv - iv_from iv"

text \<open>The sum of the sizes of the intervals before the \<open>j\<close>-th one.\<close>

definition prefix_size :: "Laik_Interval_Vector list \<Rightarrow> nat \<Rightarrow> int" where
  "prefix_size ivs j = sum_list (map iv_size (take j ivs))"

text \<open>An index in the gap between two consecutive intervals.\<close>

definition in_gap :: "Laik_Interval_Vector list \<Rightarrow> int \<Rightarrow> bool" where
  "in_gap ivs g =
     (\<exists>j. Suc j < length ivs \<and> iv_to (ivs ! j) \<le> g \<and> g < iv_from (ivs ! Suc j))"

text \<open>
  A map as \<^verbatim>\<open>calculate_mapping\<close> leaves it: at least one interval, the
  intervals sorted, \<open>lower_bound\<close> the first \<open>from\<close> and \<open>upper_bound\<close> the
  last \<open>to\<close>.
\<close>

definition wf_map :: "Laik_Map_Vector \<Rightarrow> bool" where
  "wf_map m =
     (intervals m \<noteq> [] \<and> sorted_intervals (intervals m) \<and>
      lower_bound m = iv_from (hd (intervals m)) \<and>
      upper_bound m = iv_to (last (intervals m)))"

subsection \<open>The example of the specification\<close>

text \<open>
  The map with the intervals \<open>[0,4)\<close> and \<open>[5,7)\<close>, and a layout over it with
  \<open>E\<close> external slots and the cursor at 0.
\<close>

definition example_map :: Laik_Map_Vector where
  "example_map =
     \<lparr>intervals = [\<lparr>iv_from = 0, iv_to = 4\<rparr>, \<lparr>iv_from = 5, iv_to = 7\<rparr>],
      lower_bound = 0, upper_bound = 7\<rparr>"

definition example_layout :: "nat \<Rightarrow> Laik_Layout_Vector" where
  "example_layout E =
     \<lparr>dims = 1, map_count = 1, count = 6 + E,
      lv_id = 0, localLength = 6, numberOfExternalValues = E,
      currentExternalVallue = 0, globalToLocalMap = Some example_map,
      allocatedRangeCount = 6 + E\<rparr>"

subsection \<open>The sparse vector layout: \<^verbatim>\<open>calculate_mapping\<close>\<close>

text \<open>
  An entry \<^verbatim>\<open>list->trange[o]\<close> of the range list: the bounds
  \<^verbatim>\<open>range.from.i[0]\<close> and \<^verbatim>\<open>range.to.i[0]\<close> of its range, and its
  \<^verbatim>\<open>mapNo\<close>. The type is declared in \<^verbatim>\<open>laik-internal.h\<close>, which is not
  among the sources; only the fields \<^verbatim>\<open>calculate_mapping\<close> reads are
  kept. The function gets the entries of one task,
  \<^verbatim>\<open>list->trange[list->off[myid] .. list->off[myid + 1])\<close>, as a list, and
  its index \<open>o\<close> counts from the start of that list.
\<close>

record Laik_TaskRange =
  tr_from :: int
  tr_to :: int
  tr_mapNo :: int

text \<open>
  The variables of the inner \<^verbatim>\<open>while\<close> loop. \<open>cm_intervals\<close> holds the
  entries \<^verbatim>\<open>m->intervals[0 .. chunksInitialised)\<close> written so far, so that
  \<^verbatim>\<open>chunksInitialised\<close> is its length; \<open>current_range\<close> is \<open>None\<close> as
  long as the pointer is not initialised.
\<close>

record cm_state =
  cm_o :: nat
  startRangeOfInterval :: Laik_TaskRange
  initialiseInterval :: bool
  cm_intervals :: "Laik_Interval_Vector list"
  current_range :: "Laik_TaskRange option"

text \<open>
  \<^verbatim>\<open>m->intervals[chunksInitialised] = {f, t}; chunksInitialised++\<close>. The array
  has \<^verbatim>\<open>map_size\<close> entries; a write behind its end is undefined.
\<close>

definition cm_put ::
  "nat \<Rightarrow> Laik_Interval_Vector list \<Rightarrow> int \<Rightarrow> int \<Rightarrow> error + Laik_Interval_Vector list" where
  "cm_put map_size ivs f t =
     (if length ivs < map_size then Inr (ivs @ [\<lparr>iv_from = f, iv_to = t\<rparr>]) else Inl Undefined)"

text \<open>
  The body of the \<^verbatim>\<open>while\<close> loop of \<^verbatim>\<open>layout_sparse_vector.c\<close>. The
  result says whether the body left the loop by \<^verbatim>\<open>break\<close>.
\<close>

definition cm_body :: "Laik_TaskRange list \<Rightarrow> nat \<Rightarrow> cm_state \<Rightarrow> error + (bool \<times> cm_state)" where
  "cm_body xs map_size s =
     (let o2 = cm_o s + 1;
          cur = xs ! o2;
          init = (initialiseInterval s \<or> tr_to (xs ! (o2 - 1)) \<noteq> tr_from cur)
      in
        if \<not> (o2 + 1 < length xs) \<and> \<not> init then
          (case cm_put map_size (cm_intervals s) (tr_from (startRangeOfInterval s)) (tr_to cur) of
             Inl e \<Rightarrow> Inl e
           | Inr ivs1 \<Rightarrow>
               Inr (True, s\<lparr>cm_o := o2, initialiseInterval := init, cm_intervals := ivs1,
                            current_range := Some cur\<rparr>))
        else if init then
          (case cm_put map_size (cm_intervals s) (tr_from (startRangeOfInterval s))
                  (tr_to (xs ! (o2 - 1))) of
             Inl e \<Rightarrow> Inl e
           | Inr ivs1 \<Rightarrow>
               if \<not> (o2 + 1 < length xs) then
                 (case cm_put map_size ivs1 (tr_from cur) (tr_to cur) of
                    Inl e \<Rightarrow> Inl e
                  | Inr ivs2 \<Rightarrow>
                      Inr (False, \<lparr>cm_o = o2, startRangeOfInterval = cur,
                                   initialiseInterval = False, cm_intervals = ivs2,
                                   current_range = Some cur\<rparr>))
               else
                 Inr (False, \<lparr>cm_o = o2, startRangeOfInterval = cur,
                              initialiseInterval = False, cm_intervals = ivs1,
                              current_range = Some cur\<rparr>))
        else
          Inr (False, s\<lparr>cm_o := o2, initialiseInterval := init, current_range := Some cur\<rparr>))"

text \<open>The condition of the \<^verbatim>\<open>while\<close> loop.\<close>

definition cm_cond :: "Laik_TaskRange list \<Rightarrow> cm_state \<Rightarrow> bool" where
  "cm_cond xs s = (cm_o s + 1 < length xs \<and> tr_mapNo (xs ! (cm_o s + 1)) = 0)"

function cm_while :: "Laik_TaskRange list \<Rightarrow> nat \<Rightarrow> cm_state \<Rightarrow> error + cm_state" where
  "cm_while xs map_size s =
     (if cm_cond xs s then
        (case cm_body xs map_size s of
           Inl e \<Rightarrow> Inl e
         | Inr (brk, s') \<Rightarrow> if brk then Inr s' else cm_while xs map_size s')
      else Inr s)"
  by pat_completeness auto
termination
  by (relation "measure (\<lambda>(xs, map_size, s). length xs - cm_o s)")
     (auto simp: cm_cond_def cm_body_def Let_def split: if_splits sum.splits)

declare cm_while.simps [simp del]

text \<open>
  The outer \<^verbatim>\<open>for\<close> loop, with the variables \<open>o\<close>, \<^verbatim>\<open>m->lower_bound\<close>
  (\<open>None\<close> while not written), the intervals written and
  \<^verbatim>\<open>current_range\<close>.
\<close>

function cm_for ::
  "Laik_TaskRange list \<Rightarrow> nat \<Rightarrow>
     nat \<times> int option \<times> Laik_Interval_Vector list \<times> Laik_TaskRange option \<Rightarrow>
     error + (int option \<times> Laik_Interval_Vector list \<times> Laik_TaskRange option)" where
  "cm_for xs map_size (o1, lb, ivs, cr) =
     (if o1 < length xs then
        (case cm_while xs map_size
                \<lparr>cm_o = o1, startRangeOfInterval = xs ! o1, initialiseInterval = False,
                 cm_intervals = ivs, current_range = cr\<rparr> of
           Inl e \<Rightarrow> Inl e
         | Inr s' \<Rightarrow>
             cm_for xs map_size
               (cm_o s' + 1, Some (tr_from (xs ! o1)), cm_intervals s', current_range s'))
      else Inr (lb, ivs, cr))"
  by pat_completeness auto
termination
proof (relation "measure (\<lambda>(xs, map_size, o1, r). length xs - o1)", goal_cases)
  case 1
  show ?case by simp
next
  case (2 xs map_size o1 lb ivs cr s')
  have mono: "cm_while xs ms s = Inr s' \<Longrightarrow> cm_o s \<le> cm_o s'" for xs ms s s'
  proof (induction xs ms s rule: cm_while.induct)
    case (1 xs ms s)
    show ?case
    proof (cases "cm_cond xs s")
      case False
      with "1.prems" show ?thesis by (simp add: cm_while.simps)
    next
      case True
      with "1.prems" obtain brk s1 where b: "cm_body xs ms s = Inr (brk, s1)"
        and r: "(if brk then Inr s1 else cm_while xs ms s1) = Inr s'"
        by (subst (asm) cm_while.simps) (auto split: sum.splits)
      from b have o: "cm_o s1 = cm_o s + 1"
        by (auto simp: cm_body_def Let_def split: if_splits sum.splits)
      show ?thesis
      proof (cases brk)
        case True
        with r o show ?thesis by simp
      next
        case False
        with r have "cm_while xs ms s1 = Inr s'" by simp
        from "1.IH" [OF \<open>cm_cond xs s\<close> b refl False this] o
        show ?thesis by simp
      qed
    qed
  qed
  from mono [OF 2(2)] 2(1) show ?case by simp
qed

declare cm_for.simps [simp del]

text \<open>
  \<^verbatim>\<open>calculate_mapping(l, list, map_size, myid)\<close>: the layout with its new
  map. Reading \<^verbatim>\<open>current_range\<close> while it is not initialised is undefined.
\<close>

definition calculate_mapping ::
  "'a Laik_Layout_Vector_scheme \<Rightarrow> Laik_TaskRange list \<Rightarrow> nat \<Rightarrow>
     error + 'a Laik_Layout_Vector_scheme" where
  "calculate_mapping lv xs map_size =
     (if map_size = 0 then Inl AssertionFailed
      else
        case cm_for xs map_size (0, None, [], None) of
          Inl e \<Rightarrow> Inl e
        | Inr (lb, ivs, cr) \<Rightarrow>
            if length ivs \<noteq> map_size then Inl AssertionFailed
            else
              (case (lb, cr) of
                 (Some l, Some c) \<Rightarrow>
                   Inr (lv\<lparr>globalToLocalMap :=
                          Some \<lparr>intervals = ivs, lower_bound = l, upper_bound = tr_to c\<rparr>\<rparr>)
               | _ \<Rightarrow> Inl Undefined))"

text \<open>
  Coalescing neighbours on the list of ranges: the interval opened at \<open>f\<close>
  is extended while the next range starts where the previous one ends, and is
  closed otherwise.
\<close>

fun coalesce :: "int \<Rightarrow> Laik_TaskRange list \<Rightarrow> Laik_Interval_Vector list" where
  "coalesce f [] = []"
| "coalesce f [x] = [\<lparr>iv_from = f, iv_to = tr_to x\<rparr>]"
| "coalesce f (x # y # r) =
     (if tr_to x = tr_from y then coalesce f (y # r)
      else \<lparr>iv_from = f, iv_to = tr_to x\<rparr> # coalesce (tr_from y) (y # r))"

text \<open>
  The older revision of \<^verbatim>\<open>calculate_mapping\<close> that \<^verbatim>\<open>src/partitioner.c\<close>
  carries (lines 701 to 765): its loop body closes the open interval at the
  last range whether or not that range is a neighbour.
\<close>

definition cm_body_old :: "Laik_TaskRange list \<Rightarrow> nat \<Rightarrow> cm_state \<Rightarrow> error + (bool \<times> cm_state)" where
  "cm_body_old xs map_size s =
     (let o2 = cm_o s + 1;
          cur = xs ! o2;
          init = (initialiseInterval s \<or> tr_to (xs ! (o2 - 1)) \<noteq> tr_from cur)
      in
        if \<not> (o2 + 1 < length xs) then
          (case cm_put map_size (cm_intervals s) (tr_from (startRangeOfInterval s)) (tr_to cur) of
             Inl e \<Rightarrow> Inl e
           | Inr ivs1 \<Rightarrow>
               Inr (True, s\<lparr>cm_o := o2, initialiseInterval := init, cm_intervals := ivs1,
                            current_range := Some cur\<rparr>))
        else if init then
          (case cm_put map_size (cm_intervals s) (tr_from (startRangeOfInterval s))
                  (tr_to (xs ! (o2 - 1))) of
             Inl e \<Rightarrow> Inl e
           | Inr ivs1 \<Rightarrow>
               Inr (False, \<lparr>cm_o = o2, startRangeOfInterval = cur,
                            initialiseInterval = False, cm_intervals = ivs1,
                            current_range = Some cur\<rparr>))
        else
          Inr (False, s\<lparr>cm_o := o2, initialiseInterval := init, current_range := Some cur\<rparr>))"

function cm_while_old :: "Laik_TaskRange list \<Rightarrow> nat \<Rightarrow> cm_state \<Rightarrow> error + cm_state" where
  "cm_while_old xs map_size s =
     (if cm_cond xs s then
        (case cm_body_old xs map_size s of
           Inl e \<Rightarrow> Inl e
         | Inr (brk, s') \<Rightarrow> if brk then Inr s' else cm_while_old xs map_size s')
      else Inr s)"
  by pat_completeness auto
termination
  by (relation "measure (\<lambda>(xs, map_size, s). length xs - cm_o s)")
     (auto simp: cm_cond_def cm_body_old_def Let_def split: if_splits sum.splits)

declare cm_while_old.simps [simp del]

function cm_for_old ::
  "Laik_TaskRange list \<Rightarrow> nat \<Rightarrow>
     nat \<times> int option \<times> Laik_Interval_Vector list \<times> Laik_TaskRange option \<Rightarrow>
     error + (int option \<times> Laik_Interval_Vector list \<times> Laik_TaskRange option)" where
  "cm_for_old xs map_size (o1, lb, ivs, cr) =
     (if o1 < length xs then
        (case cm_while_old xs map_size
                \<lparr>cm_o = o1, startRangeOfInterval = xs ! o1, initialiseInterval = False,
                 cm_intervals = ivs, current_range = cr\<rparr> of
           Inl e \<Rightarrow> Inl e
         | Inr s' \<Rightarrow>
             cm_for_old xs map_size
               (cm_o s' + 1, Some (tr_from (xs ! o1)), cm_intervals s', current_range s'))
      else Inr (lb, ivs, cr))"
  by pat_completeness auto
termination
proof (relation "measure (\<lambda>(xs, map_size, o1, r). length xs - o1)", goal_cases)
  case 1
  show ?case by simp
next
  case (2 xs map_size o1 lb ivs cr s')
  have mono: "cm_while_old xs ms s = Inr s' \<Longrightarrow> cm_o s \<le> cm_o s'" for xs ms s s'
  proof (induction xs ms s rule: cm_while_old.induct)
    case (1 xs ms s)
    show ?case
    proof (cases "cm_cond xs s")
      case False
      with "1.prems" show ?thesis by (simp add: cm_while_old.simps)
    next
      case True
      with "1.prems" obtain brk s1 where b: "cm_body_old xs ms s = Inr (brk, s1)"
        and r: "(if brk then Inr s1 else cm_while_old xs ms s1) = Inr s'"
        by (subst (asm) cm_while_old.simps) (auto split: sum.splits)
      from b have o: "cm_o s1 = cm_o s + 1"
        by (auto simp: cm_body_old_def Let_def split: if_splits sum.splits)
      show ?thesis
      proof (cases brk)
        case True
        with r o show ?thesis by simp
      next
        case False
        with r have "cm_while_old xs ms s1 = Inr s'" by simp
        from "1.IH" [OF \<open>cm_cond xs s\<close> b refl False this] o
        show ?thesis by simp
      qed
    qed
  qed
  from mono [OF 2(2)] 2(1) show ?case by simp
qed

declare cm_for_old.simps [simp del]

definition calculate_mapping_old ::
  "'a Laik_Layout_Vector_scheme \<Rightarrow> Laik_TaskRange list \<Rightarrow> nat \<Rightarrow>
     error + 'a Laik_Layout_Vector_scheme" where
  "calculate_mapping_old lv xs map_size =
     (if map_size = 0 then Inl AssertionFailed
      else
        case cm_for_old xs map_size (0, None, [], None) of
          Inl e \<Rightarrow> Inl e
        | Inr (lb, ivs, cr) \<Rightarrow>
            if length ivs \<noteq> map_size then Inl AssertionFailed
            else
              (case (lb, cr) of
                 (Some l, Some c) \<Rightarrow>
                   Inr (lv\<lparr>globalToLocalMap :=
                          Some \<lparr>intervals = ivs, lower_bound = l, upper_bound = tr_to c\<rparr>\<rparr>)
               | _ \<Rightarrow> Inl Undefined))"

text \<open>
  The same older revision of \<^verbatim>\<open>offset_vector\<close> (lines 408 to 460 of
  \<^verbatim>\<open>src/partitioner.c\<close>) and of \<^verbatim>\<open>reuse_vector\<close> (lines 482 to 526).
  Its layout has no field \<^verbatim>\<open>allocatedRangeCount\<close>; the field of the record
  is not used. Its \<^verbatim>\<open>offset_vector\<close> has no panic, and its
  \<^verbatim>\<open>reuse_vector\<close> compares the \<^verbatim>\<open>localLength\<close>s with \<open>\<le>\<close>.
\<close>

definition offset_vector_old ::
  "'a Laik_Layout_Vector_scheme \<Rightarrow> int \<Rightarrow> int \<Rightarrow> error + (int \<times> 'a Laik_Layout_Vector_scheme)" where
  "offset_vector_old lv n idx_val =
     (if n \<noteq> 0 then Inl AssertionFailed
      else case globalToLocalMap lv of
        None \<Rightarrow> Inl AssertionFailed
      | Some m \<Rightarrow>
          (case offset_scan (intervals m) idx_val 0 of
             (localOffset, wasInLocalRange) \<Rightarrow>
               if wasInLocalRange
               then (if localOffset \<ge> 0 \<and> localOffset < localLength lv
                     then Inr (localOffset, lv)
                     else Inl AssertionFailed)
               else
                 let cur = (if currentExternalVallue lv = numberOfExternalValues lv
                            then 0 else currentExternalVallue lv)
                 in Inr (localLength lv + int cur, lv\<lparr>currentExternalVallue := cur + 1\<rparr>)))"

definition reuse_vector_old ::
  "'a Laik_Layout_Vector_scheme \<Rightarrow> int \<Rightarrow> 'a Laik_Layout_Vector_scheme \<Rightarrow> int
     \<Rightarrow> error + (bool \<times> 'a Laik_Layout_Vector_scheme)" where
  "reuse_vector_old l n old nold =
     (if \<not> (n \<ge> 0 \<and> n < map_count l) then Inl AssertionFailed
      else if \<not> (localLength l \<le> localLength old) then Inr (False, l)
      else if cast_int64 (count l) \<noteq> localLength l
      then Inr (True, l\<lparr>globalToLocalMap := globalToLocalMap old\<rparr>)
      else Inr (True, l))"

text \<open>
  A sorted slice of the border array: no range ends before it starts, and each
  ends no later than every later one starts.
\<close>

definition sorted_slice :: "Laik_TaskRange list \<Rightarrow> bool" where
  "sorted_slice xs =
     (list_all (\<lambda>x. tr_from x \<le> tr_to x) xs \<and> sorted_wrt (\<lambda>a b. tr_to a \<le> tr_from b) xs)"

text \<open>
  Intervals that are strictly ordered and pairwise disjoint, with a gap
  between any two.
\<close>

definition strict_intervals :: "Laik_Interval_Vector list \<Rightarrow> bool" where
  "strict_intervals ivs =
     (list_all (\<lambda>iv. iv_from iv \<le> iv_to iv) ivs \<and>
      sorted_wrt (\<lambda>a b. iv_to a < iv_from b) ivs)"

text \<open>A range of map 0, and the border-array slice of the specification's example.\<close>

definition rng :: "int \<Rightarrow> int \<Rightarrow> Laik_TaskRange" where
  "rng f t = \<lparr>tr_from = f, tr_to = t, tr_mapNo = 0\<rparr>"

definition example_slice :: "Laik_TaskRange list" where
  "example_slice = [rng 0 2, rng 2 4, rng 5 7]"

subsection \<open>The compact vector layout\<close>






subsection \<open>The block partitioner\<close>

text \<open>
  \<^verbatim>\<open>runBlockPartitioner\<close> computes with \<^verbatim>\<open>double\<close> values. Here they
  are real numbers and the arithmetic is exact, without rounding. On the two
  concrete runs below every value the C code computes is a multiple of
  \<open>1/2\<close> of small size, which a \<^verbatim>\<open>double\<close> holds exactly, so the C code
  computes the same values there.

  \<^verbatim>\<open>Laik_BlockPartitionerData\<close>: a weight function is \<open>None\<close> when the
  function pointer is null; the index weight is given the index along
  \<^verbatim>\<open>pdim\<close>. The \<^verbatim>\<open>userData\<close> pointer handed to both is part of the
  functions.
\<close>

record Laik_BlockPartitionerData =
  pdim :: nat
  cycles :: int
  getIdxW :: "(nat \<Rightarrow> real) option"
  getTaskW :: "(int \<Rightarrow> real) option"

text \<open>
  A slice appended to the border array by \<^verbatim>\<open>laik_append_slice(ba, task, &slc)\<close>:
  the task and the bounds of the slice along \<^verbatim>\<open>pdim\<close>. In the other dimensions every
  slice spans the whole space.
\<close>

record Laik_TaskSlice =
  ts_task :: int
  ts_from :: int
  ts_to :: int

text \<open>
  The variables of the distribution loop: \<^verbatim>\<open>w\<close>, \<^verbatim>\<open>task\<close>,
  \<^verbatim>\<open>cycle\<close>, \<^verbatim>\<open>taskW\<close>, \<^verbatim>\<open>slc.from.i[pdim]\<close> and the slices
  appended so far.
\<close>

record bp_state =
  bp_w :: real
  bp_task :: int
  bp_cycle :: int
  bp_taskW :: real
  bp_from :: int
  bp_ba :: "Laik_TaskSlice list"

text \<open>The correction factor \<^verbatim>\<open>taskW\<close> of a task; 1 without task weights.\<close>

definition task_factor :: "Laik_BlockPartitionerData \<Rightarrow> int \<Rightarrow> real \<Rightarrow> int \<Rightarrow> real" where
  "task_factor data tcount totalTW task =
     (case getTaskW data of
        Some f \<Rightarrow> f task * real_of_int tcount / totalTW
      | None \<Rightarrow> 1)"

text \<open>The test \<^verbatim>\<open>(task+1 == count) && (cycle+1 == cycles)\<close>.\<close>

definition bp_last :: "Laik_BlockPartitionerData \<Rightarrow> int \<Rightarrow> bp_state \<Rightarrow> bool" where
  "bp_last data tcount s = (bp_task s + 1 = tcount \<and> bp_cycle s + 1 = cycles data)"

text \<open>
  The rest of the body of the \<^verbatim>\<open>while\<close> loop after the \<^verbatim>\<open>break\<close>
  test: the slice up to \<open>i\<close> is appended when it is not empty, the next task is
  taken, and a new slice starts at \<open>i\<close>.
\<close>

definition bp_next :: "Laik_BlockPartitionerData \<Rightarrow> int \<Rightarrow> real \<Rightarrow> nat \<Rightarrow> bp_state \<Rightarrow> bp_state" where
  "bp_next data tcount totalTW i s1 =
     (let s2 = (if bp_from s1 < int i
                then s1\<lparr>bp_ba := bp_ba s1 @
                       [\<lparr>ts_task = bp_task s1, ts_from = bp_from s1, ts_to = int i\<rparr>]\<rparr>
                else s1);
          s3 = s2\<lparr>bp_task := bp_task s2 + 1\<rparr>;
          s4 = (if bp_task s3 = tcount then s3\<lparr>bp_task := 0, bp_cycle := bp_cycle s3 + 1\<rparr> else s3)
      in s4\<lparr>bp_taskW := task_factor data tcount totalTW (bp_task s4), bp_from := int i\<rparr>)"

text \<open>
  The \<^verbatim>\<open>while\<close> loop at index \<open>i\<close>. With a weight of a part that is not
  positive it need not end, so it is a partial function: \<open>None\<close> is a loop that
  runs forever.
\<close>

partial_function (option) bp_while ::
  "Laik_BlockPartitionerData \<Rightarrow> int \<Rightarrow> real \<Rightarrow> real \<Rightarrow> nat \<Rightarrow> bp_state \<Rightarrow> bp_state option" where
  "bp_while data tcount totalTW perPart i s =
     (if bp_w s \<ge> perPart * bp_taskW s then
        (let s1 = s\<lparr>bp_w := bp_w s - perPart * bp_taskW s\<rparr> in
           if bp_last data tcount s1 then Some s1
           else bp_while data tcount totalTW perPart i (bp_next data tcount totalTW i s1))
      else Some s)"

declare bp_while.simps [code]

text \<open>The \<^verbatim>\<open>for\<close> loop over the indices from \<open>i\<close> on.\<close>

function bp_for ::
  "Laik_BlockPartitionerData \<Rightarrow> int \<Rightarrow> real \<Rightarrow> real \<Rightarrow> nat \<Rightarrow> nat \<Rightarrow> bp_state \<Rightarrow> bp_state option" where
  "bp_for data tcount totalTW perPart psize i s =
     (if i < psize then
        (let s1 = s\<lparr>bp_w := bp_w s + (case getIdxW data of Some f \<Rightarrow> f i | None \<Rightarrow> 1)\<rparr> in
           case bp_while data tcount totalTW perPart i s1 of
             None \<Rightarrow> None
           | Some s2 \<Rightarrow>
               if bp_last data tcount s2 then Some s2
               else bp_for data tcount totalTW perPart psize (i + 1) s2)
      else Some s)"
  by pat_completeness auto
termination
  by (relation "measure (\<lambda>(data, tcount, totalTW, perPart, psize, i, s). psize - i)") auto

declare bp_for.simps [simp del]

text \<open>The sums \<^verbatim>\<open>totalW\<close> and \<^verbatim>\<open>totalTW\<close>, and \<^verbatim>\<open>perPart\<close>.\<close>

definition block_totalW :: "Laik_BlockPartitionerData \<Rightarrow> nat \<Rightarrow> real" where
  "block_totalW data psize =
     (case getIdxW data of
        Some f \<Rightarrow> sum_list (map f [0..<psize])
      | None \<Rightarrow> real psize)"

definition block_totalTW :: "Laik_BlockPartitionerData \<Rightarrow> int \<Rightarrow> real" where
  "block_totalTW data tcount =
     (case getTaskW data of
        Some f \<Rightarrow> sum_list (map f (map int [0..<nat tcount]))
      | None \<Rightarrow> real_of_int tcount)"

definition block_perPart :: "Laik_BlockPartitionerData \<Rightarrow> nat \<Rightarrow> int \<Rightarrow> real" where
  "block_perPart data psize tcount =
     block_totalW data psize / real_of_int tcount / real_of_int (cycles data)"

text \<open>
  \<^verbatim>\<open>runBlockPartitioner\<close> on a space of \<open>psize\<close> indices along
  \<^verbatim>\<open>pdim\<close> and a group of \<open>tcount\<close> tasks: the slices appended to the
  border array. Where the C code divides by zero the result is \<open>NotFinite\<close>.
\<close>

definition runBlockPartitioner ::
  "Laik_BlockPartitionerData \<Rightarrow> nat \<Rightarrow> int \<Rightarrow> (error + Laik_TaskSlice list) option" where
  "runBlockPartitioner data psize tcount =
     (let totalTW = block_totalTW data tcount in
        if tcount = 0 \<or> cycles data = 0 \<or> totalTW = 0 then Some (Inl NotFinite)
        else
          let perPart = block_perPart data psize tcount;
              s0 = \<lparr>bp_w = - (1 / 2), bp_task = 0, bp_cycle = 0,
                    bp_taskW = task_factor data tcount totalTW 0, bp_from = 0, bp_ba = []\<rparr>
          in
            case bp_for data tcount totalTW perPart psize 0 s0 of
              None \<Rightarrow> None
            | Some s \<Rightarrow>
                if bp_last data tcount s
                then Some (Inr (bp_ba s @
                       [\<lparr>ts_task = bp_task s, ts_from = bp_from s, ts_to = int psize\<rparr>]))
                else Some (Inl AssertionFailed))"



text \<open>
  The \<open>j\<close>-th border of the unit-weight partitioning of \<open>N\<close> indices among
  \<open>k\<close> tasks, \<open>j N / k - 1/2\<close> rounded up, and the \<open>j\<close>-th slice.
\<close>

definition block_bound :: "nat \<Rightarrow> nat \<Rightarrow> nat \<Rightarrow> nat" where
  "block_bound N k j = (2 * j * N + k - 1) div (2 * k)"

definition block_slice :: "nat \<Rightarrow> nat \<Rightarrow> nat \<Rightarrow> Laik_TaskSlice" where
  "block_slice N k j =
     \<lparr>ts_task = int j, ts_from = int (block_bound N k j), ts_to = int (block_bound N k (j + 1))\<rparr>"


text \<open>The index weights \<open>[1,1,1,5]\<close> of the specification's example.\<close>

definition weights_example :: Laik_BlockPartitionerData where
  "weights_example = \<lparr>pdim = 0, cycles = 1, getIdxW = Some (\<lambda>i. [1, 1, 1, 5] ! i), getTaskW = None\<rparr>"



subsection \<open>Packing and unpacking\<close>

text \<open>
  \<^verbatim>\<open>pack_vector\<close> and \<^verbatim>\<open>unpack_vector\<close> have the same text in
  \<^verbatim>\<open>layout_compact_vector.c\<close> and \<^verbatim>\<open>layout_sparse_vector.c\<close>, apart
  from the helper \<^verbatim>\<open>next_idx\<close> of each file. They reach the layout only
  through the function pointer \<^verbatim>\<open>layout->offset\<close>, which is the parameter
  \<open>offset\<close> here, over any type \<open>'l\<close> of layouts.

  Memory is bytes. The bytes of a mapping are a function from the distance to
  \<^verbatim>\<open>m->start\<close>; the buffer \<^verbatim>\<open>buf\<close> is a function from the distance to
  its start. A mapping and a buffer are different objects, so they do not
  overlap.
\<close>

type_synonym byte = "8 word"

text \<open>
  A 1-D range: \<^verbatim>\<open>range->space->dims\<close>, \<^verbatim>\<open>range->from.i[0]\<close> and
  \<^verbatim>\<open>range->to.i[0]\<close>. An index is its coordinate \<^verbatim>\<open>i[0]\<close>.
\<close>

record Laik_Range =
  r_dims :: int
  r_from :: int
  r_to :: int

text \<open>
  The fields of \<^verbatim>\<open>Laik_Mapping\<close> that packing reads: the layout, the
  layout section, \<^verbatim>\<open>data->elemsize\<close>, the required range, and the bytes
  from \<^verbatim>\<open>start\<close> on.
\<close>

record 'l Laik_Mapping =
  m_layout :: 'l
  m_layoutSection :: int
  m_elemsize :: nat
  m_requiredRange :: Laik_Range
  m_mem :: "int \<Rightarrow> byte"

text \<open>
  The type of \<^verbatim>\<open>layout->offset\<close>: layout, map number and index give the
  offset and the layout as the call leaves it, or an error.
\<close>

type_synonym 'l offset_fn = "'l \<Rightarrow> int \<Rightarrow> int \<Rightarrow> error + (int \<times> 'l)"

text \<open>
  \<^verbatim>\<open>next_idx\<close>, with the incremented index. The two files differ for a
  space that is not 1-D: the compact file's function ends without a
  \<^verbatim>\<open>return\<close>, the sparse file's returns false.
\<close>

datatype vector_file = Compact_file | Sparse_file

definition next_idx :: "vector_file \<Rightarrow> Laik_Range \<Rightarrow> int \<Rightarrow> error + (bool \<times> int)" where
  "next_idx f rg idx =
     (let idx1 = idx + 1 in
        if idx1 < r_to rg then Inr (True, idx1)
        else if r_dims rg = 1 then Inr (False, idx1)
        else (case f of Compact_file \<Rightarrow> Inl Undefined | Sparse_file \<Rightarrow> Inr (False, idx1)))"

text \<open>
  Modelled from the spec: \<^verbatim>\<open>laik_index_isEqual\<close> is declared in
  \<^verbatim>\<open>laik-internal.h\<close> and defined outside the sources; for a 1-D layout it
  compares the coordinate \<^verbatim>\<open>i[0]\<close> (\<open>index_equal\<close> of the specification).
\<close>

definition laik_index_isEqual :: "int \<Rightarrow> int \<Rightarrow> bool" where
  "laik_index_isEqual a b = (a = b)"

text \<open>
  Modelled from the spec: \<^verbatim>\<open>laik_range_within_range\<close> is defined outside the
  sources; the first range lies within the second (\<open>range_contains\<close> of the
  specification).
\<close>

definition laik_range_within_range :: "Laik_Range \<Rightarrow> Laik_Range \<Rightarrow> bool" where
  "laik_range_within_range r1 r2 = (r_from r2 \<le> r_from r1 \<and> r_to r1 \<le> r_to r2)"

text \<open>
  \<^verbatim>\<open>memcpy(dst + d, src + s, n)\<close> between two different objects: the
  bytes of \<open>dst\<close> afterwards.
\<close>

definition memcpy :: "(int \<Rightarrow> byte) \<Rightarrow> int \<Rightarrow> (int \<Rightarrow> byte) \<Rightarrow> int \<Rightarrow> nat \<Rightarrow> (int \<Rightarrow> byte)" where
  "memcpy dst d src s n = (\<lambda>a. if d \<le> a \<and> a < d + int n then src (s + (a - d)) else dst a)"

text \<open>
  The variables of the copy loop: \<^verbatim>\<open>size\<close>, the distance of \<^verbatim>\<open>buf\<close>
  from the start of the buffer, \<^verbatim>\<open>count\<close>, \<^verbatim>\<open>*idx\<close>, the bytes of the
  object written to (the buffer when packing, the mapping when unpacking), and
  the layout.
\<close>

record 'l pack_state =
  p_size :: nat
  p_buf :: int
  p_count :: nat
  p_idx :: int
  p_bytes :: "int \<Rightarrow> byte"
  p_layout :: 'l

text \<open>The \<^verbatim>\<open>while\<close> loop of \<^verbatim>\<open>pack_vector\<close>.\<close>

function pack_loop ::
  "vector_file \<Rightarrow> 'l offset_fn \<Rightarrow> 'l Laik_Mapping \<Rightarrow> Laik_Range \<Rightarrow> 'l pack_state \<Rightarrow>
     error + 'l pack_state" where
  "pack_loop f offset m rg s =
     (if p_size s \<ge> m_elemsize m then
        (case offset (p_layout s) (m_layoutSection m) (p_idx s) of
           Inl e \<Rightarrow> Inl e
         | Inr (off, lay) \<Rightarrow>
             let s1 = s\<lparr>p_bytes := memcpy (p_bytes s) (p_buf s) (m_mem m)
                                     (off * int (m_elemsize m)) (m_elemsize m),
                        p_size := p_size s - m_elemsize m,
                        p_buf := p_buf s + int (m_elemsize m),
                        p_count := p_count s + 1,
                        p_layout := lay\<rparr>
             in
               (case next_idx f rg (p_idx s1) of
                  Inl e \<Rightarrow> Inl e
                | Inr (again, idx1) \<Rightarrow>
                    if \<not> again then Inr (s1\<lparr>p_idx := r_to rg\<rparr>)
                    else pack_loop f offset m rg (s1\<lparr>p_idx := idx1\<rparr>)))
      else Inr s)"
  by pat_completeness auto
termination
  by (relation "measure (\<lambda>(f, offset, m, rg, s). nat (r_to rg - p_idx s))")
     (auto simp: next_idx_def Let_def split: if_splits vector_file.splits)

declare pack_loop.simps [simp del]


text \<open>The \<^verbatim>\<open>while\<close> loop of \<^verbatim>\<open>unpack_vector\<close>, reading the buffer \<open>buf\<close>.\<close>

function unpack_loop ::
  "vector_file \<Rightarrow> 'l offset_fn \<Rightarrow> 'l Laik_Mapping \<Rightarrow> Laik_Range \<Rightarrow> (int \<Rightarrow> byte) \<Rightarrow>
     'l pack_state \<Rightarrow> error + 'l pack_state" where
  "unpack_loop f offset m rg buf s =
     (if p_size s \<ge> m_elemsize m then
        (case offset (p_layout s) (m_layoutSection m) (p_idx s) of
           Inl e \<Rightarrow> Inl e
         | Inr (off, lay) \<Rightarrow>
             let s1 = s\<lparr>p_bytes := memcpy (p_bytes s) (off * int (m_elemsize m)) buf
                                     (p_buf s) (m_elemsize m),
                        p_size := p_size s - m_elemsize m,
                        p_buf := p_buf s + int (m_elemsize m),
                        p_count := p_count s + 1,
                        p_layout := lay\<rparr>
             in
               (case next_idx f rg (p_idx s1) of
                  Inl e \<Rightarrow> Inl e
                | Inr (again, idx1) \<Rightarrow>
                    if \<not> again then Inr (s1\<lparr>p_idx := r_to rg\<rparr>)
                    else unpack_loop f offset m rg buf (s1\<lparr>p_idx := idx1\<rparr>)))
      else Inr s)"
  by pat_completeness auto
termination
  by (relation "measure (\<lambda>(f, offset, m, rg, buf, s). nat (r_to rg - p_idx s))")
     (auto simp: next_idx_def Let_def split: if_splits vector_file.splits)

declare unpack_loop.simps [simp del]

text \<open>
  \<^verbatim>\<open>pack_vector(m, range, idx, buf, size)\<close>: the number of elements packed,
  \<^verbatim>\<open>*idx\<close>, the bytes of the buffer and the layout afterwards.
\<close>

definition pack_vector ::
  "vector_file \<Rightarrow> 'l offset_fn \<Rightarrow> 'l Laik_Mapping \<Rightarrow> Laik_Range \<Rightarrow> int \<Rightarrow> (int \<Rightarrow> byte) \<Rightarrow> nat \<Rightarrow>
     error + (nat \<times> int \<times> (int \<Rightarrow> byte) \<times> 'l)" where
  "pack_vector f offset m rg idx buf bsize =
     (if laik_index_isEqual idx (r_to rg) then Inr (0, idx, buf, m_layout m)
      else if \<not> laik_range_within_range rg (m_requiredRange m) then Inl AssertionFailed
      else
        (case pack_loop f offset m rg
                \<lparr>p_size = bsize, p_buf = 0, p_count = 0, p_idx = idx, p_bytes = buf,
                 p_layout = m_layout m\<rparr> of
           Inl e \<Rightarrow> Inl e
         | Inr s \<Rightarrow> Inr (p_count s, p_idx s, p_bytes s, p_layout s)))"

text \<open>
  \<^verbatim>\<open>unpack_vector(m, range, idx, buf, size)\<close>: the number of elements
  unpacked, \<^verbatim>\<open>*idx\<close> and the mapping afterwards.
\<close>

definition unpack_vector ::
  "vector_file \<Rightarrow> 'l offset_fn \<Rightarrow> 'l Laik_Mapping \<Rightarrow> Laik_Range \<Rightarrow> int \<Rightarrow> (int \<Rightarrow> byte) \<Rightarrow> nat \<Rightarrow>
     error + (nat \<times> int \<times> 'l Laik_Mapping)" where
  "unpack_vector f offset m rg idx buf bsize =
     (if \<not> bsize > 0 then Inl AssertionFailed
      else if laik_index_isEqual idx (r_to rg) then Inl AssertionFailed
      else if \<not> laik_range_within_range rg (m_requiredRange m) then Inl AssertionFailed
      else
        (case unpack_loop f offset m rg buf
                \<lparr>p_size = bsize, p_buf = 0, p_count = 0, p_idx = idx, p_bytes = m_mem m,
                 p_layout = m_layout m\<rparr> of
           Inl e \<Rightarrow> Inl e
         | Inr s \<Rightarrow> Inr (p_count s, p_idx s, m\<lparr>m_mem := p_bytes s, m_layout := p_layout s\<rparr>)))"

text \<open>
  The offsets that a layout gives to a list of indices queried one after the
  other, and the layout after the last query: the slots of a walk over these
  indices.
\<close>

fun offsets_walk :: "'l offset_fn \<Rightarrow> 'l \<Rightarrow> int \<Rightarrow> int list \<Rightarrow> error + (int list \<times> 'l)" where
  "offsets_walk offset lay n [] = Inr ([], lay)"
| "offsets_walk offset lay n (i # is) =
     (case offset lay n i of
        Inl e \<Rightarrow> Inl e
      | Inr (off, lay1) \<Rightarrow>
          (case offsets_walk offset lay1 n is of
             Inl e \<Rightarrow> Inl e
           | Inr (offs, lay2) \<Rightarrow> Inr (off # offs, lay2)))"






text \<open>The same with two external slots.\<close>

definition external_example_mapping :: "(int \<Rightarrow> byte) \<Rightarrow> Laik_Layout_Vector Laik_Mapping" where
  "external_example_mapping mem =
     \<lparr>m_layout = example_layout 2, m_layoutSection = 0, m_elemsize = 2,
      m_requiredRange = \<lparr>r_dims = 1, r_from = 0, r_to = 8\<rparr>, m_mem = mem\<rparr>"

section \<open>Properties\<close>

subsection \<open>The interval scan\<close>

lemma offset_scan_not_owned:
  "\<not> owned ivs g \<Longrightarrow> snd (offset_scan ivs g acc) = False"
  by (induction ivs arbitrary: acc) (auto simp: owned_def)

lemma sorted_intervals_Cons:
  "sorted_intervals (iv # ivs) \<longleftrightarrow>
     iv_from iv \<le> iv_to iv \<and> (\<forall>b \<in> set ivs. iv_to iv \<le> iv_from b) \<and> sorted_intervals ivs"
  by (auto simp: sorted_intervals_def)

lemma sorted_intervals_nth:
  "sorted_intervals ivs \<Longrightarrow> i < j \<Longrightarrow> j < length ivs \<Longrightarrow> iv_to (ivs ! i) \<le> iv_from (ivs ! j)"
  by (simp add: sorted_intervals_def sorted_wrt_iff_nth_less)

lemma sorted_intervals_nth_le:
  "sorted_intervals ivs \<Longrightarrow> j < length ivs \<Longrightarrow> iv_from (ivs ! j) \<le> iv_to (ivs ! j)"
  by (simp add: sorted_intervals_def list_all_length)

lemma offset_scan_owned:
  "sorted_intervals ivs \<Longrightarrow> j < length ivs \<Longrightarrow>
   iv_from (ivs ! j) \<le> g \<Longrightarrow> g < iv_to (ivs ! j) \<Longrightarrow>
   offset_scan ivs g acc = (acc + prefix_size ivs j + (g - iv_from (ivs ! j)), True)"
proof (induction ivs arbitrary: j acc)
  case Nil
  then show ?case by simp
next
  case (Cons iv ivs)
  show ?case
  proof (cases j)
    case 0
    with Cons.prems show ?thesis by (simp add: prefix_size_def)
  next
    case (Suc k)
    with Cons.prems have k: "k < length ivs" "iv_from (ivs ! k) \<le> g" "g < iv_to (ivs ! k)"
      by simp_all
    from Cons.prems(1) have s: "sorted_intervals ivs" "iv_from iv \<le> iv_to iv"
      and "\<forall>b \<in> set ivs. iv_to iv \<le> iv_from b"
      by (simp_all add: sorted_intervals_Cons)
    with k have "iv_to iv \<le> g" by (metis nth_mem order_trans)
    with s have "\<not> (iv_from iv \<le> g \<and> g < iv_to iv)" "\<not> g < iv_from iv" by auto
    then have "offset_scan (iv # ivs) g acc = offset_scan ivs g (acc + (iv_to iv - iv_from iv))"
      by simp
    also have "\<dots> = (acc + (iv_to iv - iv_from iv) + prefix_size ivs k + (g - iv_from (ivs ! k)), True)"
      using Cons.IH [OF s(1) k] .
    finally show ?thesis
      using Suc by (simp add: prefix_size_def iv_size_def)
  qed
qed

lemma sum_iv_size_nonneg:
  "\<forall>x \<in> set xs. iv_from x \<le> iv_to x \<Longrightarrow> 0 \<le> sum_list (map iv_size xs)"
  by (induction xs) (auto simp: iv_size_def)

lemma prefix_size_bound:
  assumes "sorted_intervals ivs" "j < length ivs"
  shows "0 \<le> prefix_size ivs j"
    and "prefix_size ivs j + iv_size (ivs ! j) \<le> sum_list (map iv_size ivs)"
proof -
  from assms(1) have all: "\<forall>x \<in> set ivs. iv_from x \<le> iv_to x"
    by (simp add: sorted_intervals_def list_all_iff)
  have nonneg: "0 \<le> sum_list (map iv_size xs)" if "set xs \<subseteq> set ivs" for xs
    using that all by (intro sum_iv_size_nonneg) blast
  show "0 \<le> prefix_size ivs j"
    unfolding prefix_size_def by (rule nonneg) (rule set_take_subset)
  have "ivs = take j ivs @ ivs ! j # drop (Suc j) ivs"
    using assms(2) by (rule id_take_nth_drop)
  then have "sum_list (map iv_size ivs) =
      sum_list (map iv_size (take j ivs @ ivs ! j # drop (Suc j) ivs))"
    by simp
  then have "sum_list (map iv_size ivs) =
      prefix_size ivs j + iv_size (ivs ! j) + sum_list (map iv_size (drop (Suc j) ivs))"
    unfolding prefix_size_def by simp
  moreover have "0 \<le> sum_list (map iv_size (drop (Suc j) ivs))"
    by (rule nonneg) (rule set_drop_subset)
  ultimately show "prefix_size ivs j + iv_size (ivs ! j) \<le> sum_list (map iv_size ivs)"
    by simp
qed

lemma sorted_intervals_first_last:
  assumes "sorted_intervals ivs" "iv \<in> set ivs"
  shows "iv_from (hd ivs) \<le> iv_from iv" and "iv_to iv \<le> iv_to (last ivs)"
proof -
  from assms(2) obtain k where k: "k < length ivs" "iv = ivs ! k"
    by (auto simp: in_set_conv_nth)
  then have ne: "ivs \<noteq> []" by auto
  show "iv_from (hd ivs) \<le> iv_from iv"
  proof (cases k)
    case 0
    with k ne show ?thesis by (simp add: hd_conv_nth)
  next
    case (Suc k')
    with k assms(1) have "iv_to (ivs ! 0) \<le> iv_from (ivs ! k)"
      by (intro sorted_intervals_nth) simp_all
    moreover from k ne assms(1) have "iv_from (ivs ! 0) \<le> iv_to (ivs ! 0)"
      by (intro sorted_intervals_nth_le) simp_all
    ultimately show ?thesis using k ne by (simp add: hd_conv_nth)
  qed
  show "iv_to iv \<le> iv_to (last ivs)"
  proof (cases "k = length ivs - 1")
    case True
    with k ne show ?thesis by (simp add: last_conv_nth)
  next
    case False
    with k assms(1) have "iv_to (ivs ! k) \<le> iv_from (ivs ! (length ivs - 1))"
      by (intro sorted_intervals_nth) simp_all
    moreover from k ne assms(1) have
      "iv_from (ivs ! (length ivs - 1)) \<le> iv_to (ivs ! (length ivs - 1))"
      by (intro sorted_intervals_nth_le) simp_all
    ultimately show ?thesis using k ne by (simp add: last_conv_nth)
  qed
qed

lemma in_gap_not_owned:
  assumes "sorted_intervals ivs" "in_gap ivs g"
  shows "\<not> owned ivs g"
proof
  assume "owned ivs g"
  then obtain k where k: "k < length ivs" "iv_from (ivs ! k) \<le> g" "g < iv_to (ivs ! k)"
    by (auto simp: owned_def in_set_conv_nth)
  from assms(2) obtain j where j: "Suc j < length ivs" "iv_to (ivs ! j) \<le> g"
    "g < iv_from (ivs ! Suc j)"
    by (auto simp: in_gap_def)
  consider "k < j" | "k = j" | "k = Suc j" | "Suc j < k" by linarith
  then show False
  proof cases
    case 1
    with assms(1) j have "iv_to (ivs ! k) \<le> iv_from (ivs ! j)"
      by (intro sorted_intervals_nth) simp_all
    moreover from assms(1) j have "iv_from (ivs ! j) \<le> iv_to (ivs ! j)"
      by (intro sorted_intervals_nth_le) simp_all
    ultimately show False using k j by linarith
  next
    case 2
    with k j show False by simp
  next
    case 3
    with k j show False by simp
  next
    case 4
    with assms(1) k have "iv_to (ivs ! Suc j) \<le> iv_from (ivs ! k)"
      by (intro sorted_intervals_nth) simp_all
    moreover from assms(1) j have "iv_from (ivs ! Suc j) \<le> iv_to (ivs ! Suc j)"
      by (intro sorted_intervals_nth_le) simp_all
    ultimately show False using k j by linarith
  qed
qed

lemma in_gap_bounds:
  assumes "sorted_intervals ivs" "in_gap ivs g"
  shows "iv_from (hd ivs) \<le> g" and "g \<le> iv_to (last ivs)"
proof -
  from assms(2) obtain j where j: "Suc j < length ivs" "iv_to (ivs ! j) \<le> g"
    "g < iv_from (ivs ! Suc j)"
    by (auto simp: in_gap_def)
  then have mem: "ivs ! j \<in> set ivs" "ivs ! Suc j \<in> set ivs" by simp_all
  from assms(1) j have le: "iv_from (ivs ! j) \<le> iv_to (ivs ! j)"
    "iv_from (ivs ! Suc j) \<le> iv_to (ivs ! Suc j)"
    by (simp_all add: sorted_intervals_nth_le)
  from sorted_intervals_first_last(1) [OF assms(1) mem(1)] le j
  show "iv_from (hd ivs) \<le> g" by linarith
  from sorted_intervals_first_last(2) [OF assms(1) mem(2)] le j
  show "g \<le> iv_to (last ivs)" by linarith
qed

lemma upper_bound_not_owned:
  assumes "sorted_intervals ivs"
  shows "\<not> owned ivs (iv_to (last ivs))"
  using sorted_intervals_first_last(2) [OF assms] by (fastforce simp: owned_def)

lemma lower_le_upper:
  assumes "sorted_intervals ivs" "ivs \<noteq> []"
  shows "iv_from (hd ivs) \<le> iv_to (last ivs)"
proof -
  from assms(2) have mem: "hd ivs \<in> set ivs" by simp
  from assms(1) mem have "iv_from (hd ivs) \<le> iv_to (hd ivs)"
    by (simp add: sorted_intervals_def list_all_iff)
  with sorted_intervals_first_last(2) [OF assms(1) mem] show ?thesis by linarith
qed

subsection \<open>Offset queries on the sparse layout\<close>

lemma offset_vector_owned:
  assumes "globalToLocalMap lv = Some m"
    and "sorted_intervals (intervals m)"
    and "localLength lv = sum_list (map iv_size (intervals m))"
    and "j < length (intervals m)"
    and "iv_from (intervals m ! j) \<le> g" "g < iv_to (intervals m ! j)"
  shows "offset_vector lv 0 g = Inr (prefix_size (intervals m) j + (g - iv_from (intervals m ! j)), lv)"
    and "0 \<le> prefix_size (intervals m) j + (g - iv_from (intervals m ! j))"
    and "prefix_size (intervals m) j + (g - iv_from (intervals m ! j)) < localLength lv"
proof -
  let ?r = "prefix_size (intervals m) j + (g - iv_from (intervals m ! j))"
  from prefix_size_bound [OF assms(2,4)] assms(5)
  show lo: "0 \<le> ?r" by simp
  from prefix_size_bound(2) [OF assms(2,4)] assms(3,6)
  show hi: "?r < localLength lv" by (simp add: iv_size_def)
  have "offset_scan (intervals m) g 0 = (?r, True)"
    using offset_scan_owned [OF assms(2,4,5,6), of 0] by simp
  with lo hi assms(1) show "offset_vector lv 0 g = Inr (?r, lv)"
    by (simp add: offset_vector_def)
qed

lemma offset_vector_external:
  assumes "globalToLocalMap lv = Some m"
    and "\<not> owned (intervals m) g"
    and "0 < numberOfExternalValues lv"
  shows "offset_vector lv 0 g =
     Inr (localLength lv + int (external_cursor lv),
          lv\<lparr>currentExternalVallue := external_cursor lv + 1\<rparr>)"
proof -
  obtain off where "offset_scan (intervals m) g 0 = (off, False)"
    using offset_scan_not_owned [OF assms(2), of 0]
    by (cases "offset_scan (intervals m) g 0") simp
  then show ?thesis
    using assms(1,3) by (simp add: offset_vector_def external_cursor_def Let_def)
qed

lemma external_cursor_advance:
  assumes "currentExternalVallue lv \<le> numberOfExternalValues lv"
    and "0 < numberOfExternalValues lv"
  shows "external_cursor (lv\<lparr>currentExternalVallue := external_cursor lv + 1\<rparr>) =
     (if external_cursor lv + 1 = numberOfExternalValues lv then 0 else external_cursor lv + 1)"
    and "external_cursor lv < numberOfExternalValues lv"
  using assms by (auto simp: external_cursor_def)

subsection \<open>Building the map\<close>

lemma cm_while_coalesce:
  assumes all0: "\<forall>x \<in> set xs. tr_mapNo x = 0"
  shows "cm_o s + 1 < length xs \<Longrightarrow> \<not> initialiseInterval s \<Longrightarrow>
    length (cm_intervals s) +
      length (coalesce (tr_from (startRangeOfInterval s)) (drop (cm_o s) xs)) \<le> ms \<Longrightarrow>
    \<exists>s'. cm_while xs ms s = Inr s' \<and> cm_o s' = length xs - 1 \<and>
      cm_intervals s' =
        cm_intervals s @ coalesce (tr_from (startRangeOfInterval s)) (drop (cm_o s) xs) \<and>
      current_range s' = Some (last xs)"
proof (induction "length xs - cm_o s" arbitrary: s rule: less_induct)
  case less
  let ?o = "cm_o s" and ?o2 = "Suc (cm_o s)"
  let ?x = "xs ! cm_o s" and ?y = "xs ! Suc (cm_o s)"
  let ?sf = "tr_from (startRangeOfInterval s)"
  from less.prems(1) have cond: "cm_cond xs s"
    using all0 by (simp add: cm_cond_def)
  from less.prems(1) have dr: "drop ?o xs = ?x # ?y # drop (Suc ?o2) xs"
    by (simp add: Cons_nth_drop_Suc)
  from less.prems(1) have dr2: "drop ?o2 xs = ?y # drop (Suc ?o2) xs"
    by (simp add: Cons_nth_drop_Suc)
  have ne: "xs \<noteq> []" using less.prems(1) by auto
  show ?case
  proof (cases "Suc ?o2 < length xs")
    case False
    then have nil: "drop (Suc ?o2) xs = []" by simp
    from False less.prems(1) have len: "length xs - Suc 0 = ?o2" by simp
    have lst: "last xs = ?y"
      using ne len by (simp add: last_conv_nth)
    show ?thesis
    proof (cases "tr_to ?x = tr_from ?y")
      case True
      with less.prems(3) have sp: "length (cm_intervals s) < ms"
        by (simp add: dr nil)
      with True False less.prems(2) show ?thesis
        by (subst cm_while.simps)
           (simp add: cond cm_body_def cm_put_def dr nil lst len Let_def)
    next
      case neq: False
      with less.prems(3) have sp: "length (cm_intervals s) + 2 \<le> ms"
        by (simp add: dr nil)
      let ?s2 = "\<lparr>cm_o = ?o2, startRangeOfInterval = ?y, initialiseInterval = False,
          cm_intervals = cm_intervals s @ [\<lparr>iv_from = ?sf, iv_to = tr_to ?x\<rparr>,
            \<lparr>iv_from = tr_from ?y, iv_to = tr_to ?y\<rparr>], current_range = Some ?y\<rparr>"
      have "\<not> cm_cond xs ?s2"
        using False by (simp add: cm_cond_def)
      then have w2: "cm_while xs ms ?s2 = Inr ?s2"
        by (subst cm_while.simps) simp
      have b: "cm_body xs ms s = Inr (False, ?s2)"
        using neq False sp by (simp add: cm_body_def cm_put_def Let_def)
      show ?thesis
        by (subst cm_while.simps) (simp add: cond b w2 dr nil lst len neq)
    qed
  next
    case more: True
    show ?thesis
    proof (cases "tr_to ?x = tr_from ?y")
      case True
      let ?s1 = "s\<lparr>cm_o := ?o2, initialiseInterval := False, current_range := Some ?y\<rparr>"
      have b: "cm_body xs ms s = Inr (False, ?s1)"
        using True more less.prems(2) by (simp add: cm_body_def Let_def)
      have co: "coalesce ?sf (drop ?o xs) = coalesce ?sf (drop ?o2 xs)"
        using True by (simp add: dr dr2)
      have "\<exists>s'. cm_while xs ms ?s1 = Inr s' \<and> cm_o s' = length xs - 1 \<and>
          cm_intervals s' = cm_intervals ?s1 @
            coalesce (tr_from (startRangeOfInterval ?s1)) (drop (cm_o ?s1) xs) \<and>
          current_range s' = Some (last xs)"
        using more less.prems(1,3) co by (intro less.hyps) simp_all
      then show ?thesis
        by (subst cm_while.simps) (simp add: cond b co)
    next
      case neq: False
      let ?ivs1 = "cm_intervals s @ [\<lparr>iv_from = ?sf, iv_to = tr_to ?x\<rparr>]"
      let ?s1 = "\<lparr>cm_o = ?o2, startRangeOfInterval = ?y, initialiseInterval = False,
          cm_intervals = ?ivs1, current_range = Some ?y\<rparr>"
      have co: "coalesce ?sf (drop ?o xs) =
          \<lparr>iv_from = ?sf, iv_to = tr_to ?x\<rparr> # coalesce (tr_from ?y) (drop ?o2 xs)"
        using neq by (simp add: dr dr2)
      with less.prems(3) have sp: "length (cm_intervals s) < ms" by simp
      have b: "cm_body xs ms s = Inr (False, ?s1)"
        using neq more sp by (simp add: cm_body_def cm_put_def Let_def)
      have "\<exists>s'. cm_while xs ms ?s1 = Inr s' \<and> cm_o s' = length xs - 1 \<and>
          cm_intervals s' = cm_intervals ?s1 @
            coalesce (tr_from (startRangeOfInterval ?s1)) (drop (cm_o ?s1) xs) \<and>
          current_range s' = Some (last xs)"
        using more less.prems(1,3) co by (intro less.hyps) simp_all
      then show ?thesis
        by (subst cm_while.simps) (simp add: cond b co)
    qed
  qed
qed



lemma coalesce_nonempty: "xs \<noteq> [] \<Longrightarrow> coalesce f xs \<noteq> []"
  by (induction f xs rule: coalesce.induct) auto

lemma coalesce_last: "xs \<noteq> [] \<Longrightarrow> iv_to (last (coalesce f xs)) = tr_to (last xs)"
  by (induction f xs rule: coalesce.induct) (auto simp: coalesce_nonempty)

lemma coalesce_hd: "xs \<noteq> [] \<Longrightarrow> iv_from (hd (coalesce f xs)) = f"
  by (induction f xs rule: coalesce.induct) auto

lemma coalesce_strict:
  "sorted_slice xs \<Longrightarrow> xs \<noteq> [] \<Longrightarrow> f \<le> tr_from (hd xs) \<Longrightarrow>
   strict_intervals (coalesce f xs) \<and> (\<forall>iv \<in> set (coalesce f xs). f \<le> iv_from iv)"
proof (induction f xs rule: coalesce.induct)
  case (1 f)
  then show ?case by simp
next
  case (2 f x)
  then show ?case by (simp add: sorted_slice_def strict_intervals_def)
next
  case (3 f x y r)
  from "3.prems"(1) have s: "sorted_slice (y # r)" and xy: "tr_to x \<le> tr_from y"
    and x: "tr_from x \<le> tr_to x"
    by (simp_all add: sorted_slice_def)
  show ?case
  proof (cases "tr_to x = tr_from y")
    case True
    with "3.prems" x have "f \<le> tr_from (hd (y # r))" by simp
    from "3.IH"(1) [OF True s _ this] True show ?thesis by simp
  next
    case False
    from "3.IH"(2) [OF False s] have
      ih: "strict_intervals (coalesce (tr_from y) (y # r))"
        "\<forall>iv \<in> set (coalesce (tr_from y) (y # r)). tr_from y \<le> iv_from iv"
      by simp_all
    from False xy have lt: "tr_to x < tr_from y" by simp
    from "3.prems"(3) x have fx: "f \<le> tr_to x" by simp
    from ih lt fx False show ?thesis
      by (fastforce simp: strict_intervals_def)
  qed
qed

lemma strict_intervals_sorted: "strict_intervals ivs \<Longrightarrow> sorted_intervals ivs"
  unfolding strict_intervals_def sorted_intervals_def
  by (auto intro: sorted_wrt_mono_rel [of ivs "\<lambda>a b. iv_to a < iv_from b"])

lemma calculate_mapping_coalesce:
  assumes all0: "\<forall>x \<in> set xs. tr_mapNo x = 0"
    and len: "2 \<le> length xs"
    and ms: "map_size = length (coalesce (tr_from (hd xs)) xs)"
  shows "calculate_mapping lv xs map_size =
     Inr (lv\<lparr>globalToLocalMap :=
            Some \<lparr>intervals = coalesce (tr_from (hd xs)) xs,
                  lower_bound = tr_from (hd xs), upper_bound = tr_to (last xs)\<rparr>\<rparr>)"
proof -
  let ?s0 = "\<lparr>cm_o = 0, startRangeOfInterval = xs ! 0, initialiseInterval = False,
      cm_intervals = [], current_range = None\<rparr>"
  from len have ne: "xs \<noteq> []" by auto
  then have hd: "xs ! 0 = hd xs" by (simp add: hd_conv_nth)
  from cm_while_coalesce [OF all0, of ?s0 map_size] len ms hd
  obtain s' where w: "cm_while xs map_size ?s0 = Inr s'" and o: "cm_o s' = length xs - 1"
    and iv: "cm_intervals s' = coalesce (tr_from (hd xs)) xs"
    and cr: "current_range s' = Some (last xs)"
    by auto
  from o len have o': "cm_o s' + 1 = length xs" by simp
  have f2: "cm_for xs map_size (length xs, Some (tr_from (hd xs)), cm_intervals s', current_range s') =
      Inr (Some (tr_from (hd xs)), cm_intervals s', current_range s')"
    by (subst cm_for.simps) simp
  have "cm_for xs map_size (0, None, [], None) =
      Inr (Some (tr_from (hd xs)), cm_intervals s', current_range s')"
    using ne w o' f2 hd by (subst cm_for.simps) simp
  moreover from ne ms have "map_size \<noteq> 0"
    using coalesce_nonempty [of xs "tr_from (hd xs)"] by simp
  ultimately show ?thesis
    using iv cr ms by (simp add: calculate_mapping_def)
qed

lemma calculate_mapping_two_or_more:
  assumes "\<forall>x \<in> set xs. tr_mapNo x = 0" and "2 \<le> length xs" and "sorted_slice xs"
    and "map_size = length (coalesce (tr_from (hd xs)) xs)"
  shows "\<exists>m. calculate_mapping lv xs map_size = Inr (lv\<lparr>globalToLocalMap := Some m\<rparr>) \<and>
      intervals m = coalesce (tr_from (hd xs)) xs \<and> length (intervals m) = map_size \<and>
      strict_intervals (intervals m) \<and> wf_map m \<and>
      lower_bound m = tr_from (hd xs) \<and> upper_bound m = tr_to (last xs)"
proof -
  let ?c = "coalesce (tr_from (hd xs)) xs"
  from assms(2) have ne: "xs \<noteq> []" by auto
  have "tr_from (hd xs) \<le> tr_from (hd xs)" by simp
  from coalesce_strict [OF assms(3) ne this]
  have st: "strict_intervals ?c" by (rule conjunct1)
  let ?m = "\<lparr>intervals = ?c, lower_bound = tr_from (hd xs), upper_bound = tr_to (last xs)\<rparr>"
  have wf: "wf_map ?m"
    unfolding wf_map_def Laik_Map_Vector.simps
  proof (intro conjI)
    show "?c \<noteq> []" by (rule coalesce_nonempty [OF ne])
    show "sorted_intervals ?c" by (rule strict_intervals_sorted [OF st])
    show "tr_from (hd xs) = iv_from (hd ?c)" by (rule coalesce_hd [OF ne, symmetric])
    show "tr_to (last xs) = iv_to (last ?c)" by (rule coalesce_last [OF ne, symmetric])
  qed
  have main: "calculate_mapping lv xs map_size = Inr (lv\<lparr>globalToLocalMap := Some ?m\<rparr>) \<and>
      intervals ?m = ?c \<and> length (intervals ?m) = map_size \<and>
      strict_intervals (intervals ?m) \<and> wf_map ?m \<and>
      lower_bound ?m = tr_from (hd xs) \<and> upper_bound ?m = tr_to (last xs)"
  proof (intro conjI)
    show "calculate_mapping lv xs map_size = Inr (lv\<lparr>globalToLocalMap := Some ?m\<rparr>)"
      by (rule calculate_mapping_coalesce [OF assms(1,2,4)])
    show "length (intervals ?m) = map_size"
      by (simp only: assms(4) Laik_Map_Vector.simps)
    show "strict_intervals (intervals ?m)"
      using st by (simp only: Laik_Map_Vector.simps)
    show "wf_map ?m" by (rule wf)
  qed (simp_all only: Laik_Map_Vector.simps)
  show ?thesis by (rule exI [of _ ?m]) (rule main)
qed

lemma calculate_mapping_example:
  "calculate_mapping lv example_slice 2 =
     Inr (lv\<lparr>globalToLocalMap := Some example_map\<rparr>)"
proof -
  have "calculate_mapping lv example_slice 2 =
     Inr (lv\<lparr>globalToLocalMap :=
            Some \<lparr>intervals = coalesce (tr_from (hd example_slice)) example_slice,
                  lower_bound = tr_from (hd example_slice),
                  upper_bound = tr_to (last example_slice)\<rparr>\<rparr>)"
    by (rule calculate_mapping_coalesce) (simp_all add: example_slice_def rng_def)
  then show ?thesis
    by (simp add: example_slice_def rng_def example_map_def)
qed

text \<open>
  The older revision on the same slice: the last range is merged across the
  gap, one interval \<open>[0,7)\<close> is stored, and the assertion on the number of
  intervals fails for \<^verbatim>\<open>map_size = 2\<close>.
\<close>

lemma calculate_mapping_old_example:
  "calculate_mapping_old lv example_slice 2 = Inl AssertionFailed"
  "calculate_mapping_old lv example_slice 1 =
     Inr (lv\<lparr>globalToLocalMap :=
            Some \<lparr>intervals = [\<lparr>iv_from = 0, iv_to = 7\<rparr>], lower_bound = 0, upper_bound = 7\<rparr>\<rparr>)"
  by (simp_all add: calculate_mapping_old_def cm_for_old.simps cm_while_old.simps
      cm_body_old_def cm_cond_def cm_put_def example_slice_def rng_def Let_def)

subsection \<open>The older revision of the sparse layout\<close>

text \<open>
  Where the older revision differs from \<^verbatim>\<open>layout_sparse_vector.c\<close>: without
  external slots an index that is not owned gets a slot behind the local
  values, and a layout of smaller \<^verbatim>\<open>localLength\<close> reuses a larger one.
\<close>

lemma offset_vector_old_no_panic:
  "offset_vector_old (example_layout 0) 0 4 =
     Inr (6, (example_layout 0)\<lparr>currentExternalVallue := 1\<rparr>)"
  by (simp add: offset_vector_old_def example_layout_def example_map_def)

lemma reuse_vector_old_rule:
  "0 \<le> n \<Longrightarrow> n < map_count l \<Longrightarrow>
   \<exists>l'. reuse_vector_old l n old nold = Inr (localLength l \<le> localLength old, l')"
  by (simp add: reuse_vector_old_def)

subsection \<open>Claims on the sparse layout\<close>

text \<open>
  C8. Sparse layout without external slots (\<open>numberOfExternalValues = 0\<close>):
  an offset query for a global index that lies in no owned interval ends in
  \<^verbatim>\<open>laik_panic\<close>; no slot is returned.
\<close>

theorem offset_vector_no_externals_panics:
  assumes "globalToLocalMap lv = Some m"
    and "numberOfExternalValues lv = 0"
    and "\<not> owned (intervals m) g"
  shows "offset_vector lv 0 g = Inl Panic"
proof -
  obtain off where "offset_scan (intervals m) g 0 = (off, False)"
    using offset_scan_not_owned [OF assms(3), of 0]
    by (cases "offset_scan (intervals m) g 0") simp
  then show ?thesis
    using assms(1,2) by (simp add: offset_vector_def)
qed

theorem offset_vector_no_externals_panics_witness:
  "globalToLocalMap (example_layout 0) = Some example_map \<and>
   numberOfExternalValues (example_layout 0) = 0 \<and>
   \<not> owned (intervals example_map) 4 \<and>
   offset_vector (example_layout 0) 0 4 = Inl Panic"
proof -
  have h: "globalToLocalMap (example_layout 0) = Some example_map"
    "numberOfExternalValues (example_layout 0) = 0"
    "\<not> owned (intervals example_map) 4"
    by (simp_all add: example_layout_def example_map_def owned_def)
  from offset_vector_no_externals_panics [OF h] h show ?thesis by simp
qed

text \<open>
  C1. The offset function of the sparse layout, on a layout whose intervals
  are sorted and whose \<open>localLength\<close> is the sum of their sizes.
  For a global index \<open>g\<close> in the \<open>j\<close>-th interval it returns the sum of the
  sizes of the earlier intervals plus \<open>g - from\<close>, a value in
  \<open>[0, localLength)\<close>, and leaves the layout as it is. For \<open>g\<close> in no
  interval and \<open>E > 0\<close> it returns \<open>localLength\<close> plus the external cursor
  and advances the cursor, which wraps to 0 when it would reach \<open>E\<close>. (The C
  code stores the unwrapped cursor and wraps it at the start of the next
  query; \<open>external_cursor\<close> reads it wrapped.)
  On the intervals \<open>[0,4), [5,7)\<close>: \<open>offset 3 = 3\<close>, \<open>offset 6 = 5\<close>, and with
  \<open>E = 2\<close> three queries of indices that are not owned return 6, 7 and 6.
\<close>

theorem offset_vector_sparse_rule:
  "(globalToLocalMap lv = Some m \<and> sorted_intervals (intervals m) \<and>
    localLength lv = sum_list (map iv_size (intervals m)) \<longrightarrow>
      (\<forall>j. j < length (intervals m) \<and>
           iv_from (intervals m ! j) \<le> g \<and> g < iv_to (intervals m ! j) \<longrightarrow>
           offset_vector lv 0 g =
             Inr (prefix_size (intervals m) j + (g - iv_from (intervals m ! j)), lv) \<and>
           0 \<le> prefix_size (intervals m) j + (g - iv_from (intervals m ! j)) \<and>
           prefix_size (intervals m) j + (g - iv_from (intervals m ! j)) < localLength lv))
   \<and>
   (globalToLocalMap lv = Some m \<and> \<not> owned (intervals m) g \<and>
    0 < numberOfExternalValues lv \<and>
    currentExternalVallue lv \<le> numberOfExternalValues lv \<longrightarrow>
      offset_vector lv 0 g =
        Inr (localLength lv + int (external_cursor lv),
             lv\<lparr>currentExternalVallue := external_cursor lv + 1\<rparr>) \<and>
      external_cursor lv < numberOfExternalValues lv \<and>
      external_cursor (lv\<lparr>currentExternalVallue := external_cursor lv + 1\<rparr>) =
        (if external_cursor lv + 1 = numberOfExternalValues lv then 0
         else external_cursor lv + 1))
   \<and>
   (\<exists>lv'. offset_queries (example_layout 2) [3, 6] = Inr ([3, 5], lv')) \<and>
   (\<exists>lv'. offset_queries (example_layout 2) [4, 7, 9] = Inr ([6, 7, 6], lv'))"
proof (intro conjI impI allI; (elim conjE)?)
  fix j
  assume a: "globalToLocalMap lv = Some m" "sorted_intervals (intervals m)"
    "localLength lv = sum_list (map iv_size (intervals m))"
    "j < length (intervals m)" "iv_from (intervals m ! j) \<le> g" "g < iv_to (intervals m ! j)"
  show "offset_vector lv 0 g =
      Inr (prefix_size (intervals m) j + (g - iv_from (intervals m ! j)), lv)"
    by (rule offset_vector_owned(1) [OF a])
  show "0 \<le> prefix_size (intervals m) j + (g - iv_from (intervals m ! j))"
    by (rule offset_vector_owned(2) [OF a])
  show "prefix_size (intervals m) j + (g - iv_from (intervals m ! j)) < localLength lv"
    by (rule offset_vector_owned(3) [OF a])
next
  assume b: "globalToLocalMap lv = Some m" "\<not> owned (intervals m) g"
    "0 < numberOfExternalValues lv" "currentExternalVallue lv \<le> numberOfExternalValues lv"
  show "offset_vector lv 0 g =
      Inr (localLength lv + int (external_cursor lv),
           lv\<lparr>currentExternalVallue := external_cursor lv + 1\<rparr>)"
    by (rule offset_vector_external [OF b(1,2,3)])
  show "external_cursor lv < numberOfExternalValues lv"
    by (rule external_cursor_advance(2) [OF b(4,3)])
  show "external_cursor (lv\<lparr>currentExternalVallue := external_cursor lv + 1\<rparr>) =
      (if external_cursor lv + 1 = numberOfExternalValues lv then 0
       else external_cursor lv + 1)"
    by (rule external_cursor_advance(1) [OF b(4,3)])
next
  show "\<exists>lv'. offset_queries (example_layout 2) [3, 6] = Inr ([3, 5], lv')"
    by (simp add: offset_vector_def example_layout_def example_map_def)
  show "\<exists>lv'. offset_queries (example_layout 2) [4, 7, 9] = Inr ([6, 7, 6], lv')"
    by (simp add: offset_vector_def example_layout_def example_map_def)
qed

theorem offset_vector_sparse_rule_witness:
  "offset_vector (example_layout 2) 0 6 = Inr (5, example_layout 2) \<and>
   offset_vector (example_layout 2) 0 4 =
     Inr (6, (example_layout 2)\<lparr>currentExternalVallue := 1\<rparr>) \<and>
   external_cursor ((example_layout 2)\<lparr>currentExternalVallue := 1\<rparr>) = 1"
proof -
  let ?L = "example_layout 2" and ?m = example_map
  have h: "globalToLocalMap ?L = Some ?m"
    "sorted_intervals (intervals ?m)"
    "localLength ?L = sum_list (map iv_size (intervals ?m))"
    "(1::nat) < length (intervals ?m)"
    "iv_from (intervals ?m ! 1) \<le> 6" "6 < iv_to (intervals ?m ! 1)"
    "\<not> owned (intervals ?m) 4"
    "0 < numberOfExternalValues ?L"
    "currentExternalVallue ?L \<le> numberOfExternalValues ?L"
    by (simp_all add: example_layout_def example_map_def sorted_intervals_def iv_size_def
        owned_def)
  have p: "prefix_size (intervals ?m) 1 = 4" "iv_from (intervals ?m ! 1) = 5"
    "external_cursor ?L = 0" "localLength ?L = 6" "numberOfExternalValues ?L = 2"
    by (simp_all add: prefix_size_def iv_size_def example_map_def example_layout_def
        external_cursor_def)
  have "offset_vector ?L 0 6 =
      Inr (prefix_size (intervals ?m) 1 + (6 - iv_from (intervals ?m ! 1)), ?L)"
    using offset_vector_sparse_rule [of ?L ?m 6] h(1-6) by blast
  then have a: "offset_vector ?L 0 6 = Inr (5, ?L)"
    by (simp only: p) simp
  have "offset_vector ?L 0 4 =
        Inr (localLength ?L + int (external_cursor ?L),
             ?L\<lparr>currentExternalVallue := external_cursor ?L + 1\<rparr>) \<and>
      external_cursor (?L\<lparr>currentExternalVallue := external_cursor ?L + 1\<rparr>) =
        (if external_cursor ?L + 1 = numberOfExternalValues ?L then 0
         else external_cursor ?L + 1)"
    using offset_vector_sparse_rule [of ?L ?m 4] h(1,7,8,9) by blast
  then have b: "offset_vector ?L 0 4 = Inr (6, ?L\<lparr>currentExternalVallue := 1\<rparr>) \<and>
      external_cursor (?L\<lparr>currentExternalVallue := 1\<rparr>) = 1"
    by (simp only: p) simp
  from a b show ?thesis by simp
qed

text \<open>
  C10 (as amended). On a layout with a well-formed map, \<open>section_vector\<close>
  returns 0 exactly when \<open>lower_bound \<le> g \<le> upper_bound\<close>. Every index in a
  gap between two intervals, and the index \<open>upper_bound\<close> itself, is
  therefore classified as contained although no interval owns it. An offset
  query for an index that is not owned is routed to an external slot when
  \<open>E > 0\<close>, and ends in \<^verbatim>\<open>laik_panic\<close> when \<open>E = 0\<close>.
\<close>

theorem section_vector_inclusive_bounds:
  "globalToLocalMap lv = Some m \<and> wf_map m \<longrightarrow>
     (section_vector lv g = Inr 0 \<longleftrightarrow> lower_bound m \<le> g \<and> g \<le> upper_bound m) \<and>
     (in_gap (intervals m) g \<or> g = upper_bound m \<longrightarrow>
        section_vector lv g = Inr 0 \<and> \<not> owned (intervals m) g) \<and>
     (\<not> owned (intervals m) g \<and> 0 < numberOfExternalValues lv \<longrightarrow>
        offset_vector lv 0 g =
          Inr (localLength lv + int (external_cursor lv),
               lv\<lparr>currentExternalVallue := external_cursor lv + 1\<rparr>)) \<and>
     (\<not> owned (intervals m) g \<and> numberOfExternalValues lv = 0 \<longrightarrow>
        offset_vector lv 0 g = Inl Panic)"
proof (intro impI, elim conjE)
  assume m: "globalToLocalMap lv = Some m" and wf: "wf_map m"
  from wf have s: "sorted_intervals (intervals m)" and ne: "intervals m \<noteq> []"
    and lo: "lower_bound m = iv_from (hd (intervals m))"
    and hi: "upper_bound m = iv_to (last (intervals m))"
    by (simp_all add: wf_map_def)
  have sec: "section_vector lv g = Inr 0 \<longleftrightarrow> lower_bound m \<le> g \<and> g \<le> upper_bound m" for g
    using m by (auto simp: section_vector_def)
  have gap: "section_vector lv g = Inr 0 \<and> \<not> owned (intervals m) g"
    if "in_gap (intervals m) g \<or> g = upper_bound m"
    using that
  proof
    assume g: "in_gap (intervals m) g"
    from in_gap_bounds [OF s g] in_gap_not_owned [OF s g] lo hi
    show ?thesis by (simp add: sec)
  next
    assume g: "g = upper_bound m"
    from lower_le_upper [OF s ne] upper_bound_not_owned [OF s] lo hi g
    show ?thesis by (simp add: sec)
  qed
  have ext: "offset_vector lv 0 g =
      Inr (localLength lv + int (external_cursor lv),
           lv\<lparr>currentExternalVallue := external_cursor lv + 1\<rparr>)"
    if "\<not> owned (intervals m) g \<and> 0 < numberOfExternalValues lv"
    using offset_vector_external [OF m] that by blast
  have pan: "offset_vector lv 0 g = Inl Panic"
    if "\<not> owned (intervals m) g \<and> numberOfExternalValues lv = 0"
  proof -
    from that obtain off where "offset_scan (intervals m) g 0 = (off, False)"
      using offset_scan_not_owned [of "intervals m" g 0]
      by (cases "offset_scan (intervals m) g 0") simp
    with that m show ?thesis by (simp add: offset_vector_def)
  qed
  from sec gap ext pan
  show "(section_vector lv g = Inr 0 \<longleftrightarrow> lower_bound m \<le> g \<and> g \<le> upper_bound m) \<and>
     (in_gap (intervals m) g \<or> g = upper_bound m \<longrightarrow>
        section_vector lv g = Inr 0 \<and> \<not> owned (intervals m) g) \<and>
     (\<not> owned (intervals m) g \<and> 0 < numberOfExternalValues lv \<longrightarrow>
        offset_vector lv 0 g =
          Inr (localLength lv + int (external_cursor lv),
               lv\<lparr>currentExternalVallue := external_cursor lv + 1\<rparr>)) \<and>
     (\<not> owned (intervals m) g \<and> numberOfExternalValues lv = 0 \<longrightarrow>
        offset_vector lv 0 g = Inl Panic)"
    by blast
qed

theorem section_vector_inclusive_bounds_witness:
  "wf_map example_map \<and> in_gap (intervals example_map) 4 \<and>
   section_vector (example_layout 1) 4 = Inr 0 \<and>
   section_vector (example_layout 1) 7 = Inr 0 \<and>
   section_vector (example_layout 1) 8 = Inr (- 1) \<and>
   offset_vector (example_layout 1) 0 7 =
     Inr (6, (example_layout 1)\<lparr>currentExternalVallue := 1\<rparr>)"
proof -
  have h: "globalToLocalMap (example_layout 1) = Some example_map" "wf_map example_map"
    "in_gap (intervals example_map) 4" "upper_bound example_map = 7"
    "lower_bound example_map = 0"
    "0 < numberOfExternalValues (example_layout 1)"
    "external_cursor (example_layout 1) = 0" "localLength (example_layout 1) = 6"
    by (simp_all add: example_layout_def example_map_def wf_map_def sorted_intervals_def
        in_gap_def external_cursor_def)
  have s8: "section_vector (example_layout 1) 8 = Inr (- 1)"
    by (simp add: section_vector_def example_layout_def example_map_def)
  from section_vector_inclusive_bounds [of "example_layout 1" example_map 4]
    section_vector_inclusive_bounds [of "example_layout 1" example_map 7] h s8
  show ?thesis by simp
qed

text \<open>
  The claim as first stated promised an external slot for every such index.
  With no external slots the index 7, the \<open>upper_bound\<close> of the example map,
  has section 0, is not owned, and its offset query ends in \<^verbatim>\<open>laik_panic\<close>.
\<close>

theorem section_vector_offset_counterexample:
  "section_vector (example_layout 0) 7 = Inr 0 \<and>
   \<not> owned (intervals example_map) 7 \<and>
   offset_vector (example_layout 0) 0 7 = Inl Panic"
  by (simp add: section_vector_def offset_vector_def example_layout_def example_map_def
      owned_def)

text \<open>
  C3. \<^verbatim>\<open>reuse_vector\<close> of the sparse layout, called with a valid map number.
  It returns true exactly when the new \<open>allocatedRangeCount\<close> is at most the
  old one and both \<open>localLength\<close>s are equal. When it returns true and the new
  layout's \<open>count\<close> differs from its \<open>localLength\<close> (an external
  partitioning), the new layout has the old layout's \<open>globalToLocalMap\<close>.
  When it returns false although the \<open>localLength\<close>s are equal, the new
  layout has the old layout's \<open>globalToLocalMap\<close> as well.
\<close>

theorem reuse_vector_sparse_rule:
  "0 \<le> n \<and> n < map_count l \<longrightarrow>
     (\<exists>l'. reuse_vector l n old nold =
        Inr (allocatedRangeCount l \<le> allocatedRangeCount old \<and> localLength l = localLength old, l')) \<and>
     (\<forall>l'. reuse_vector l n old nold = Inr (True, l') \<and> cast_int64 (count l) \<noteq> localLength l \<longrightarrow>
        globalToLocalMap l' = globalToLocalMap old) \<and>
     (\<forall>l'. reuse_vector l n old nold = Inr (False, l') \<and> localLength l = localLength old \<longrightarrow>
        globalToLocalMap l' = globalToLocalMap old)"
  by (auto simp: reuse_vector_def Let_def)

theorem reuse_vector_sparse_rule_witness:
  "reuse_vector ((example_layout 2)\<lparr>globalToLocalMap := None\<rparr>) 0 (example_layout 0) 0 =
     Inr (False, example_layout 2) \<and>
   reuse_vector ((example_layout 2)\<lparr>globalToLocalMap := None\<rparr>) 0 (example_layout 3) 0 =
     Inr (True, (example_layout 2)\<lparr>allocatedRangeCount := 9\<rparr>)"
proof -
  have h: "0 \<le> (0::int) \<and> 0 < map_count ((example_layout 2)\<lparr>globalToLocalMap := None\<rparr>)"
    by (simp add: example_layout_def)
  from reuse_vector_sparse_rule [of 0 "(example_layout 2)\<lparr>globalToLocalMap := None\<rparr>"
      "example_layout 0" 0]
    reuse_vector_sparse_rule [of 0 "(example_layout 2)\<lparr>globalToLocalMap := None\<rparr>"
      "example_layout 3" 0] h
  show ?thesis
    by (simp add: reuse_vector_def example_layout_def cast_int64_def Let_def)
qed

subsection \<open>Claims on the compact layout\<close>




subsection \<open>Section and offset together\<close>




subsection \<open>Building the map from a single range\<close>

text \<open>
  C2. The claim: for every sorted non-empty slice \<^verbatim>\<open>calculate_mapping\<close>
  stores the coalesced intervals, closes the last one at the final entry's
  \<open>to\<close>, and their number is \<^verbatim>\<open>map_size\<close>. For slices of two or more
  ranges this is \<open>calculate_mapping_two_or_more\<close>, and the example of the
  specification is \<open>calculate_mapping_example\<close>. For a slice of one range
  the \<^verbatim>\<open>while\<close> loop is never entered, no interval is stored, and the
  function's own assertion \<^verbatim>\<open>chunksInitialised == map_size\<close> fails for
  every \<^verbatim>\<open>map_size\<close>:
\<close>

theorem calculate_mapping_single_range:
  "calculate_mapping lv [x] map_size = Inl AssertionFailed"
proof -
  let ?s0 = "\<lparr>cm_o = 0, startRangeOfInterval = x, initialiseInterval = False,
      cm_intervals = [], current_range = None\<rparr>"
  have w: "cm_while [x] map_size ?s0 = Inr ?s0"
    by (subst cm_while.simps) (simp add: cm_cond_def)
  have f2: "cm_for [x] map_size (Suc 0, Some (tr_from x), [], None) = Inr (Some (tr_from x), [], None)"
    by (subst cm_for.simps) simp
  have "cm_for [x] map_size (0, None, [], None) = Inr (Some (tr_from x), [], None)"
    by (subst cm_for.simps) (simp add: w f2)
  then show ?thesis
    by (simp add: calculate_mapping_def)
qed

subsection \<open>The block partitioner on unit weights\<close>


lemma bp_while_break:
  "perPart * bp_taskW s \<le> bp_w s \<Longrightarrow>
   bp_last d c (s\<lparr>bp_w := bp_w s - perPart * bp_taskW s\<rparr>) \<Longrightarrow>
   bp_while d c T perPart i s = Some (s\<lparr>bp_w := bp_w s - perPart * bp_taskW s\<rparr>)"
  by (subst bp_while.simps) (simp add: Let_def)
















lemma block_slices_nth:
  "j < k \<Longrightarrow> map (block_slice N k) [0..<k] ! j = block_slice N k j"
  by simp






subsection \<open>Claims on the block partitioner\<close>



text \<open>
  C6. Index weights \<open>[1,1,1,5]\<close> on 4 indices, 2 tasks, one cycle, no task
  weights: \<^verbatim>\<open>perPart\<close> is 4 and two slices are appended, \<open>[0,3)\<close> for
  task 0 and \<open>[3,4)\<close> for task 1.
\<close>

theorem block_partitioner_index_weights:
  "block_perPart weights_example 4 2 = 4 \<and>
   runBlockPartitioner weights_example 4 2 =
     Some (Inr [\<lparr>ts_task = 0, ts_from = 0, ts_to = 3\<rparr>, \<lparr>ts_task = 1, ts_from = 3, ts_to = 4\<rparr>])"
  by code_simp


subsection \<open>Packing and unpacking a range\<close>

lemma offsets_walk_Cons:
  "offsets_walk offset lay n (i # is) = Inr (os, lay') \<Longrightarrow>
   \<exists>o1 lay1 os1. offset lay n i = Inr (o1, lay1) \<and> offsets_walk offset lay1 n is = Inr (os1, lay') \<and>
     os = o1 # os1"
  by (auto split: sum.splits)


lemma pack_loop_walk:
  assumes dims: "r_dims rg = 1"
  shows "p_idx s < r_to rg \<Longrightarrow>
    offsets_walk offset (p_layout s) (m_layoutSection m) [p_idx s..r_to rg - 1] = Inr (os, lay') \<Longrightarrow>
    length os * m_elemsize m \<le> p_size s \<Longrightarrow>
    \<exists>s'. pack_loop f offset m rg s = Inr s' \<and> p_count s' = p_count s + length os \<and>
      p_idx s' = r_to rg \<and> p_layout s' = lay' \<and>
      (\<forall>k<length os. \<forall>b<m_elemsize m.
         p_bytes s' (p_buf s + int (k * m_elemsize m) + int b) =
           m_mem m (os ! k * int (m_elemsize m) + int b)) \<and>
      (\<forall>a<p_buf s. p_bytes s' a = p_bytes s a)"
proof (induction "nat (r_to rg - p_idx s)" arbitrary: s os rule: less_induct)
  case less
  let ?es = "m_elemsize m" and ?n = "m_layoutSection m"
  from less.prems(1) have l: "[p_idx s..r_to rg - 1] = p_idx s # [p_idx s + 1..r_to rg - 1]"
    by (simp add: upto_rec1)
  from offsets_walk_Cons [OF less.prems(2) [unfolded l]] obtain o1 lay1 os1 where
    o1: "offset (p_layout s) ?n (p_idx s) = Inr (o1, lay1)"
    and w1: "offsets_walk offset lay1 ?n [p_idx s + 1..r_to rg - 1] = Inr (os1, lay')"
    and os: "os = o1 # os1"
    by blast
  from less.prems(3) os have sz: "?es \<le> p_size s" "length os1 * ?es \<le> p_size s - ?es"
    by simp_all
  let ?s1 = "s\<lparr>p_bytes := memcpy (p_bytes s) (p_buf s) (m_mem m) (o1 * int ?es) ?es,
      p_size := p_size s - ?es, p_buf := p_buf s + int ?es, p_count := p_count s + 1,
      p_layout := lay1\<rparr>"
  show ?case
  proof (cases "p_idx s + 1 < r_to rg")
    case False
    with less.prems(1) have e: "[p_idx s + 1..r_to rg - 1] = []" by simp
    with w1 have os1: "os1 = []" "lay' = lay1" by simp_all
    from False dims have nx: "next_idx f rg (p_idx s) = Inr (False, p_idx s + 1)"
      by (simp add: next_idx_def)
    have "pack_loop f offset m rg s = Inr (?s1\<lparr>p_idx := r_to rg\<rparr>)"
      using sz(1) o1 nx by (subst pack_loop.simps) (simp add: Let_def)
    then show ?thesis
      using os os1 by (simp add: memcpy_def)
  next
    case True
    then have nx: "next_idx f rg (p_idx s) = Inr (True, p_idx s + 1)"
      by (simp add: next_idx_def)
    let ?s2 = "?s1\<lparr>p_idx := p_idx s + 1\<rparr>"
    have st: "pack_loop f offset m rg s = pack_loop f offset m rg ?s2"
      using sz(1) o1 nx by (subst pack_loop.simps) (simp add: Let_def)
    have m: "nat (r_to rg - p_idx ?s2) < nat (r_to rg - p_idx s)" using True by simp
    have "\<exists>s'. pack_loop f offset m rg ?s2 = Inr s' \<and> p_count s' = p_count ?s2 + length os1 \<and>
      p_idx s' = r_to rg \<and> p_layout s' = lay' \<and>
      (\<forall>k<length os1. \<forall>b<?es.
         p_bytes s' (p_buf ?s2 + int (k * ?es) + int b) = m_mem m (os1 ! k * int ?es + int b)) \<and>
      (\<forall>a<p_buf ?s2. p_bytes s' a = p_bytes ?s2 a)"
      using True w1 sz(2) by (intro less.hyps [OF m]) simp_all
    then obtain s' where s': "pack_loop f offset m rg ?s2 = Inr s'"
      "p_count s' = p_count s + 1 + length os1" "p_idx s' = r_to rg" "p_layout s' = lay'"
      and rest: "\<forall>k<length os1. \<forall>b<?es.
         p_bytes s' (p_buf s + int ?es + int (k * ?es) + int b) =
           m_mem m (os1 ! k * int ?es + int b)"
      and low: "\<forall>a<p_buf s + int ?es. p_bytes s' a =
          memcpy (p_bytes s) (p_buf s) (m_mem m) (o1 * int ?es) ?es a"
      by auto
    have bytes: "p_bytes s' (p_buf s + int (k * ?es) + int b) = m_mem m (os ! k * int ?es + int b)"
      if "k < length os" "b < ?es" for k b
    proof (cases k)
      case 0
      from that(2) have "p_buf s + int b < p_buf s + int ?es" by simp
      with low have "p_bytes s' (p_buf s + int b) =
          memcpy (p_bytes s) (p_buf s) (m_mem m) (o1 * int ?es) ?es (p_buf s + int b)" by blast
      with that(2) 0 os show ?thesis by (simp add: memcpy_def)
    next
      case (Suc k')
      with that os have "k' < length os1" by simp
      with rest that(2) have "p_bytes s' (p_buf s + int ?es + int (k' * ?es) + int b) =
           m_mem m (os1 ! k' * int ?es + int b)" by blast
      with Suc os show ?thesis by (simp add: algebra_simps)
    qed
    have lowa: "p_bytes s' a = p_bytes s a" if "a < p_buf s" for a
    proof -
      from that have "a < p_buf s + int ?es" by simp
      with low have "p_bytes s' a = memcpy (p_bytes s) (p_buf s) (m_mem m) (o1 * int ?es) ?es a"
        by blast
      with that show ?thesis by (simp add: memcpy_def)
    qed
    from st s' os bytes lowa show ?thesis by simp
  qed
qed


lemma unpack_loop_walk:
  assumes dims: "r_dims rg = 1"
  shows "p_idx s < r_to rg \<Longrightarrow>
    offsets_walk offset (p_layout s) (m_layoutSection m) [p_idx s..r_to rg - 1] = Inr (os, lay') \<Longrightarrow>
    length os * m_elemsize m \<le> p_size s \<Longrightarrow>
    (\<forall>k<length os. \<forall>b<m_elemsize m.
       buf (p_buf s + int (k * m_elemsize m) + int b) = src (os ! k * int (m_elemsize m) + int b)) \<Longrightarrow>
    \<exists>s'. unpack_loop f offset m rg buf s = Inr s' \<and> p_count s' = p_count s + length os \<and>
      p_idx s' = r_to rg \<and> p_layout s' = lay' \<and>
      (\<forall>a. p_bytes s' a = p_bytes s a \<or> p_bytes s' a = src a) \<and>
      (\<forall>k<length os. \<forall>b<m_elemsize m.
         p_bytes s' (os ! k * int (m_elemsize m) + int b) =
           src (os ! k * int (m_elemsize m) + int b))"
proof (induction "nat (r_to rg - p_idx s)" arbitrary: s os rule: less_induct)
  case less
  let ?es = "m_elemsize m" and ?n = "m_layoutSection m"
  from less.prems(1) have l: "[p_idx s..r_to rg - 1] = p_idx s # [p_idx s + 1..r_to rg - 1]"
    by (simp add: upto_rec1)
  from offsets_walk_Cons [OF less.prems(2) [unfolded l]] obtain o1 lay1 os1 where
    o1: "offset (p_layout s) ?n (p_idx s) = Inr (o1, lay1)"
    and w1: "offsets_walk offset lay1 ?n [p_idx s + 1..r_to rg - 1] = Inr (os1, lay')"
    and os: "os = o1 # os1"
    by blast
  from less.prems(3) os have sz: "?es \<le> p_size s" "length os1 * ?es \<le> p_size s - ?es"
    by simp_all
  let ?mem1 = "memcpy (p_bytes s) (o1 * int ?es) buf (p_buf s) ?es"
  let ?s1 = "s\<lparr>p_bytes := ?mem1,
      p_size := p_size s - ?es, p_buf := p_buf s + int ?es, p_count := p_count s + 1,
      p_layout := lay1\<rparr>"
  have b0: "buf (p_buf s + int b) = src (o1 * int ?es + int b)" if "b < ?es" for b
    using less.prems(4) [rule_format, of 0 b] that os by simp
  have mem1: "?mem1 a = p_bytes s a \<or> ?mem1 a = src a" for a
  proof (cases "o1 * int ?es \<le> a \<and> a < o1 * int ?es + int ?es")
    case False
    then have "?mem1 a = p_bytes s a" unfolding memcpy_def by (simp only: if_False)
    then show ?thesis by (rule disjI1)
  next
    case True
    then have "nat (a - o1 * int ?es) < ?es" by linarith
    from b0 [OF this] True have "buf (p_buf s + (a - o1 * int ?es)) = src a" by simp
    with True show ?thesis by (simp add: memcpy_def)
  qed
  have first: "?mem1 (o1 * int ?es + int b) = src (o1 * int ?es + int b)" if "b < ?es" for b
    using that b0 [OF that] by (simp add: memcpy_def)
  show ?case
  proof (cases "p_idx s + 1 < r_to rg")
    case False
    with less.prems(1) have e: "[p_idx s + 1..r_to rg - 1] = []" by simp
    with w1 have os1: "os1 = []" "lay' = lay1" by simp_all
    from False dims have nx: "next_idx f rg (p_idx s) = Inr (False, p_idx s + 1)"
      by (simp add: next_idx_def)
    have "unpack_loop f offset m rg buf s = Inr (?s1\<lparr>p_idx := r_to rg\<rparr>)"
      using sz(1) o1 nx by (subst unpack_loop.simps) (simp add: Let_def)
    then show ?thesis
      using os os1 mem1 first by simp
  next
    case True
    then have nx: "next_idx f rg (p_idx s) = Inr (True, p_idx s + 1)"
      by (simp add: next_idx_def)
    let ?s2 = "?s1\<lparr>p_idx := p_idx s + 1\<rparr>"
    have st: "unpack_loop f offset m rg buf s = unpack_loop f offset m rg buf ?s2"
      using sz(1) o1 nx by (subst unpack_loop.simps) (simp add: Let_def)
    have m: "nat (r_to rg - p_idx ?s2) < nat (r_to rg - p_idx s)" using True by simp
    have bufs: "\<forall>k<length os1. \<forall>b<?es.
        buf (p_buf ?s2 + int (k * ?es) + int b) = src (os1 ! k * int ?es + int b)"
    proof (intro allI impI)
      fix k b assume "k < length os1" "b < ?es"
      with less.prems(4) [rule_format, of "Suc k" b] os
      show "buf (p_buf ?s2 + int (k * ?es) + int b) = src (os1 ! k * int ?es + int b)"
        by (simp add: algebra_simps)
    qed
    have "\<exists>s'. unpack_loop f offset m rg buf ?s2 = Inr s' \<and>
      p_count s' = p_count ?s2 + length os1 \<and>
      p_idx s' = r_to rg \<and> p_layout s' = lay' \<and>
      (\<forall>a. p_bytes s' a = p_bytes ?s2 a \<or> p_bytes s' a = src a) \<and>
      (\<forall>k<length os1. \<forall>b<?es.
         p_bytes s' (os1 ! k * int ?es + int b) = src (os1 ! k * int ?es + int b))"
      using True w1 sz(2) bufs by (intro less.hyps [OF m]) simp_all
    then obtain s' where s': "unpack_loop f offset m rg buf ?s2 = Inr s'"
      "p_count s' = p_count s + 1 + length os1" "p_idx s' = r_to rg" "p_layout s' = lay'"
      and keep: "\<forall>a. p_bytes s' a = ?mem1 a \<or> p_bytes s' a = src a"
      and rest: "\<forall>k<length os1. \<forall>b<?es.
         p_bytes s' (os1 ! k * int ?es + int b) = src (os1 ! k * int ?es + int b)"
      by auto
    have all: "p_bytes s' a = p_bytes s a \<or> p_bytes s' a = src a" for a
      using keep [rule_format, of a] mem1 [of a] by auto
    have bytes: "p_bytes s' (os ! k * int ?es + int b) = src (os ! k * int ?es + int b)"
      if "k < length os" "b < ?es" for k b
    proof (cases k)
      case 0
      with keep [rule_format, of "o1 * int ?es + int b"] first [OF that(2)] os
      show ?thesis by auto
    next
      case (Suc k')
      with that os have "k' < length os1" by simp
      with rest that(2) Suc os show ?thesis by simp
    qed
    from st s' os all bytes show ?thesis by simp
  qed
qed


lemma pack_unpack_walk:
  assumes dims: "r_dims rg = 1" and ne: "r_from rg < r_to rg"
    and ws: "laik_range_within_range rg (m_requiredRange ms)"
    and wd: "laik_range_within_range rg (m_requiredRange md)"
    and es: "m_elemsize md = m_elemsize ms"
    and lay: "m_layout md = m_layout ms"
    and sec: "m_layoutSection md = m_layoutSection ms"
    and walk: "offsets_walk offset (m_layout ms) (m_layoutSection ms) [r_from rg..r_to rg - 1] =
       Inr (os, lay')"
    and sz: "length os * m_elemsize ms \<le> bsize" and pos: "0 < bsize"
  shows "\<exists>buf1 md1.
      pack_vector f offset ms rg (r_from rg) buf bsize = Inr (length os, r_to rg, buf1, lay') \<and>
      unpack_vector f offset md rg (r_from rg) buf1 bsize = Inr (length os, r_to rg, md1) \<and>
      m_layout md1 = lay' \<and>
      (\<forall>a. m_mem md1 a = m_mem md a \<or> m_mem md1 a = m_mem ms a) \<and>
      (\<forall>k<length os. \<forall>b<m_elemsize ms.
         m_mem md1 (os ! k * int (m_elemsize ms) + int b) =
           m_mem ms (os ! k * int (m_elemsize ms) + int b))"
proof -
  let ?ps = "\<lparr>p_size = bsize, p_buf = 0, p_count = 0, p_idx = r_from rg, p_bytes = buf,
      p_layout = m_layout ms\<rparr>"
  from pack_loop_walk [OF dims, of ?ps offset ms os lay' f] ne walk sz
  obtain s1 where p: "pack_loop f offset ms rg ?ps = Inr s1" "p_count s1 = length os"
    "p_idx s1 = r_to rg" "p_layout s1 = lay'"
    and pb: "\<forall>k<length os. \<forall>b<m_elemsize ms.
         p_bytes s1 (0 + int (k * m_elemsize ms) + int b) =
           m_mem ms (os ! k * int (m_elemsize ms) + int b)"
    by auto
  let ?buf1 = "p_bytes s1"
  let ?pd = "\<lparr>p_size = bsize, p_buf = 0, p_count = 0, p_idx = r_from rg, p_bytes = m_mem md,
      p_layout = m_layout md\<rparr>"
  have "\<exists>s'. unpack_loop f offset md rg ?buf1 ?pd = Inr s' \<and>
      p_count s' = p_count ?pd + length os \<and>
      p_idx s' = r_to rg \<and> p_layout s' = lay' \<and>
      (\<forall>a. p_bytes s' a = p_bytes ?pd a \<or> p_bytes s' a = m_mem ms a) \<and>
      (\<forall>k<length os. \<forall>b<m_elemsize md.
         p_bytes s' (os ! k * int (m_elemsize md) + int b) =
           m_mem ms (os ! k * int (m_elemsize md) + int b))"
    using ne walk sz pb es lay sec by (intro unpack_loop_walk [OF dims]) simp_all
  then obtain s2 where u: "unpack_loop f offset md rg ?buf1 ?pd = Inr s2" "p_count s2 = length os"
    "p_idx s2 = r_to rg" "p_layout s2 = lay'"
    and keep: "\<forall>a. p_bytes s2 a = m_mem md a \<or> p_bytes s2 a = m_mem ms a"
    and ub: "\<forall>k<length os. \<forall>b<m_elemsize ms.
         p_bytes s2 (os ! k * int (m_elemsize ms) + int b) =
           m_mem ms (os ! k * int (m_elemsize ms) + int b)"
    using es by auto
  let ?md1 = "md\<lparr>m_mem := p_bytes s2, m_layout := p_layout s2\<rparr>"
  have pk: "pack_vector f offset ms rg (r_from rg) buf bsize = Inr (length os, r_to rg, ?buf1, lay')"
    using ne ws p by (simp add: pack_vector_def laik_index_isEqual_def)
  have up: "unpack_vector f offset md rg (r_from rg) ?buf1 bsize = Inr (length os, r_to rg, ?md1)"
    using ne wd pos u by (simp add: unpack_vector_def laik_index_isEqual_def)
  have "pack_vector f offset ms rg (r_from rg) buf bsize = Inr (length os, r_to rg, ?buf1, lay') \<and>
      unpack_vector f offset md rg (r_from rg) ?buf1 bsize = Inr (length os, r_to rg, ?md1) \<and>
      m_layout ?md1 = lay' \<and>
      (\<forall>a. m_mem ?md1 a = m_mem md a \<or> m_mem ?md1 a = m_mem ms a) \<and>
      (\<forall>k<length os. \<forall>b<m_elemsize ms.
         m_mem ?md1 (os ! k * int (m_elemsize ms) + int b) =
           m_mem ms (os ! k * int (m_elemsize ms) + int b))"
    using pk up u(4) keep ub by simp
  then show ?thesis by (intro exI [of _ ?buf1] exI [of _ ?md1])
qed





text \<open>
  An index that is not owned gets the slot of the external cursor at the
  time of the walk. After the round trip of the index 4 on the example layout
  with two external slots the destination holds the source's bytes in slot 6,
  and the next offset query for the index 4 returns slot 7.
\<close>

lemma pack_unpack_external_slot:
  "\<exists>buf1 md1.
     pack_vector Sparse_file offset_vector (external_example_mapping (\<lambda>a. word_of_int a))
         \<lparr>r_dims = 1, r_from = 4, r_to = 5\<rparr> 4 (\<lambda>a. 0) 2 =
       Inr (1, 5, buf1, (example_layout 2)\<lparr>currentExternalVallue := 1\<rparr>) \<and>
     unpack_vector Sparse_file offset_vector (external_example_mapping (\<lambda>a. 0))
         \<lparr>r_dims = 1, r_from = 4, r_to = 5\<rparr> 4 buf1 2 =
       Inr (1, 5, md1) \<and>
     m_mem md1 12 = 12 \<and>
     m_layout md1 = (example_layout 2)\<lparr>currentExternalVallue := 1\<rparr> \<and>
     offset_vector (m_layout md1) 0 4 =
       Inr (7, (example_layout 2)\<lparr>currentExternalVallue := 2\<rparr>)"
proof -
  let ?ss = "external_example_mapping (\<lambda>a. word_of_int a)"
  let ?sd = "external_example_mapping (\<lambda>a. 0)"
  let ?rg = "\<lparr>r_dims = 1, r_from = 4, r_to = 5\<rparr>"
  let ?l1 = "(example_layout 2)\<lparr>currentExternalVallue := 1\<rparr>"
  have up: "[r_from ?rg..r_to ?rg - 1] = [4]" by (simp add: upto_rec1)
  have w: "offsets_walk offset_vector (m_layout ?ss) (m_layoutSection ?ss)
      [r_from ?rg..r_to ?rg - 1] = Inr ([6], ?l1)"
    unfolding up
    by (simp add: external_example_mapping_def offset_vector_def example_layout_def example_map_def)
  have v: "r_from ?rg = 4" "r_to ?rg = 5" "m_elemsize ?ss = 2"
    "m_mem ?ss = (\<lambda>a. word_of_int a)" "m_mem ?sd = (\<lambda>a. 0)" "length [6::int] = 1"
    by (simp_all add: external_example_mapping_def)
  have "\<exists>buf1 md1.
      pack_vector Sparse_file offset_vector ?ss ?rg (r_from ?rg) (\<lambda>a. 0) 2 =
        Inr (length [6::int], r_to ?rg, buf1, ?l1) \<and>
      unpack_vector Sparse_file offset_vector ?sd ?rg (r_from ?rg) buf1 2 =
        Inr (length [6::int], r_to ?rg, md1) \<and>
      m_layout md1 = ?l1 \<and>
      (\<forall>a. m_mem md1 a = m_mem ?sd a \<or> m_mem md1 a = m_mem ?ss a) \<and>
      (\<forall>k<length [6::int]. \<forall>b<m_elemsize ?ss.
         m_mem md1 ([6] ! k * int (m_elemsize ?ss) + int b) =
           m_mem ?ss ([6] ! k * int (m_elemsize ?ss) + int b))"
    by (rule pack_unpack_walk [OF _ _ _ _ _ _ _ w])
       (simp_all add: external_example_mapping_def laik_range_within_range_def)
  then obtain buf1 md1 where
    r: "pack_vector Sparse_file offset_vector ?ss ?rg 4 (\<lambda>a. 0) 2 = Inr (1, 5, buf1, ?l1)"
       "unpack_vector Sparse_file offset_vector ?sd ?rg 4 buf1 2 = Inr (1, 5, md1)"
       "m_layout md1 = ?l1"
    and eq: "\<forall>k<1. \<forall>b<2. m_mem md1 ([6] ! k * 2 + int b) = word_of_int ([6] ! k * 2 + int b)"
    unfolding v by auto
  from eq [rule_format, of 0 0] have a: "m_mem md1 12 = 12" by simp
  have o: "offset_vector ?l1 0 4 = Inr (7, (example_layout 2)\<lparr>currentExternalVallue := 2\<rparr>)"
    by (simp add: offset_vector_def example_layout_def example_map_def)
  from r a o show ?thesis by (intro exI [of _ buf1] exI [of _ md1]) simp
qed




end
